theory Spec2Isabelle
  imports Main "HOL-Library.Sublist"
begin

section \<open>Bulk testing utility of the recipe chatbot (scripts/bulk\_test.py)\<close>

text \<open>
  The script reads query rows from a CSV file, sends every query to the agent through
  \<^verbatim>\<open>get_agent_response\<close> on a thread pool, and writes the results as a JSON and a CSV
  file. Python strings are modelled as \<^typ>\<open>string\<close>, read as the UTF-8 bytes of the
  text (the encoding both output files are opened with).
\<close>

subsection \<open>Conversations and the agent\<close>

text \<open>
  A turn is the dict \<^verbatim>\<open>{"role": ..., "content": ...}\<close>; a conversation is a list of
  turns. \<^verbatim>\<open>get_agent_response\<close> lives in \<^verbatim>\<open>backend.utils\<close>, outside the script, so it
  is a parameter here: a call either returns the updated history or raises an exception,
  and it may read and change the state \<^typ>\<open>'s\<close> of the service behind it, so that its
  answer may depend on when the call is made.
\<close>

record turn =
  role :: string
  content :: string

type_synonym conversation = "turn list"

text \<open>
  What the \<^verbatim>\<open>try\<close> block of \<^verbatim>\<open>process_query\<close> can raise and \<^verbatim>\<open>except Exception\<close>
  catches: the \<^verbatim>\<open>IndexError\<close> of an index into an empty list, or an exception of the
  agent call, which is kept as the text \<^verbatim>\<open>repr\<close> gives for it. The requests to leave the
  interpreter (\<^verbatim>\<open>SystemExit\<close>, \<^verbatim>\<open>KeyboardInterrupt\<close>), which are no instances of
  \<^verbatim>\<open>Exception\<close>, and an agent call that never returns are outside the model.
\<close>

datatype fault = IndexError | AgentFault string

fun repr :: "fault \<Rightarrow> string" where
  "repr IndexError = ''IndexError('' @ [CHR 0x27] @ ''list index out of range'' @ [CHR 0x27] @ '')''"
| "repr (AgentFault r) = r"

type_synonym 's agent = "conversation \<Rightarrow> 's \<Rightarrow> (fault + conversation) \<times> 's"

text \<open>\<^verbatim>\<open>xs[-1]\<close>: the last element, \<^verbatim>\<open>IndexError\<close> on an empty list.\<close>

definition getitem_last :: "'a list \<Rightarrow> fault + 'a" where
  "getitem_last xs = (if xs = [] then Inl IndexError else Inr (last xs))"

text \<open>
  Lines 58 to 61: \<^verbatim>\<open>updated_history and updated_history[-1]["role"] == "assistant"\<close>.
  Python's \<^verbatim>\<open>and\<close> does not evaluate its right operand when the left one is falsy (an
  empty list); otherwise the list is indexed, once for the role and once more for the
  content.
\<close>

definition extract_response :: "conversation \<Rightarrow> fault + string" where
  "extract_response updated_history =
     (if updated_history = [] then Inr ''Error: No assistant reply found''
      else case getitem_last updated_history of
        Inl e \<Rightarrow> Inl e
      | Inr t \<Rightarrow>
          if role t = ''assistant''
          then (case getitem_last updated_history of
                  Inl e \<Rightarrow> Inl e
                | Inr t' \<Rightarrow> Inr (content t'))
          else Inr ''Error: No assistant reply found'')"

text \<open>
  \<^verbatim>\<open>process_query\<close> (lines 52 to 66): the \<^verbatim>\<open>try\<close> block builds the one-turn
  conversation, calls the agent and extracts the response; the handler turns an
  exception \<^verbatim>\<open>e\<close> into the response \<^verbatim>\<open>f"Error: {e!r}"\<close>.
\<close>

definition process_query ::
  "'s agent \<Rightarrow> string \<Rightarrow> string \<Rightarrow> 's \<Rightarrow> (string \<times> string \<times> string) \<times> 's" where
  "process_query get_agent_response query_id query s =
     (let initial_messages = [\<lparr>role = ''user'', content = query\<rparr>];
          (outcome, s') = get_agent_response initial_messages s;
          attempt = (case outcome of
                       Inl e \<Rightarrow> Inl e
                     | Inr updated_history \<Rightarrow> extract_response updated_history)
      in case attempt of
           Inr response \<Rightarrow> ((query_id, query, response), s')
         | Inl e \<Rightarrow> ((query_id, query, ''Error: '' @ repr e), s'))"

subsection \<open>Reading the queries\<close>

text \<open>
  A row of \<^verbatim>\<open>csv.DictReader\<close> is a dict from column names to field texts
  (\<^verbatim>\<open>dict[str, str]\<close> in the script's annotations). A column that a short row does not
  reach, which \<^verbatim>\<open>DictReader\<close> fills with \<^verbatim>\<open>None\<close>, is an unbound key here:
  \<^verbatim>\<open>row.get\<close> gives \<^verbatim>\<open>None\<close> for both. The CSV parsing itself is the library's; the
  model starts from the rows the reader yields for the file, in file order.
\<close>

type_synonym row = "string \<rightharpoonup> string"

text \<open>Truth value of \<^verbatim>\<open>row.get(key)\<close>: \<^verbatim>\<open>None\<close> and the empty string are falsy.\<close>

definition truthy :: "string option \<Rightarrow> bool" where
  "truthy v = (case v of None \<Rightarrow> False | Some text \<Rightarrow> text \<noteq> [])"

text \<open>\<^verbatim>\<open>read_queries\<close> (lines 41 to 49): the list comprehension over the reader.\<close>

definition read_queries :: "row list \<Rightarrow> row list" where
  "read_queries reader = [row \<leftarrow> reader. truthy (row ''id'') \<and> truthy (row ''query'')]"

subsection \<open>The thread pool\<close>

text \<open>
  Exceptions that leave \<^verbatim>\<open>run_bulk_test\<close>: the \<^verbatim>\<open>ValueError\<close> of the
  \<^verbatim>\<open>ThreadPoolExecutor\<close> constructor and of \<^verbatim>\<open>Path.with_suffix\<close>, the \<^verbatim>\<open>KeyError\<close> of
  \<^verbatim>\<open>item[key]\<close> on a row without the key, and the \<^verbatim>\<open>IsADirectoryError\<close> of opening a
  directory for writing.
\<close>

datatype error = ValueError string | KeyError string | IsADirectoryError

text \<open>
  \<^verbatim>\<open>item[key]\<close>. Only rows that passed \<^verbatim>\<open>read_queries\<close> are indexed, and these have
  both keys bound to a text. On a row cut short, where \<^verbatim>\<open>DictReader\<close> binds the key to
  \<^verbatim>\<open>None\<close>, Python returns \<^verbatim>\<open>None\<close> where this function raises; no such row reaches it.
\<close>

definition getitem :: "row \<Rightarrow> string \<Rightarrow> error + string" where
  "getitem item key = (case item key of None \<Rightarrow> Inl (KeyError key) | Some v \<Rightarrow> Inr v)"

text \<open>
  The constructor of \<^verbatim>\<open>concurrent.futures.ThreadPoolExecutor\<close> (CPython,
  \<^verbatim>\<open>Lib/concurrent/futures/thread.py\<close>) refuses a pool without workers:
  \<^verbatim>\<open>if max_workers <= 0: raise ValueError("max_workers must be greater than 0")\<close>.
  It starts no thread; threads are started by \<^verbatim>\<open>submit\<close>.
\<close>

definition ThreadPoolExecutor :: "int \<Rightarrow> error + int" where
  "ThreadPoolExecutor max_workers =
     (if max_workers \<le> 0 then Inl (ValueError ''max_workers must be greater than 0'')
      else Inr max_workers)"

text \<open>
  \<^verbatim>\<open>executor.map(fn, items)\<close> submits one task per item, which gives one future per
  item, in item order. The workers then run the tasks; a task stores its outcome in its
  own future. \<^verbatim>\<open>completion\<close> is the order in which the tasks run their call: any list
  of indices, in which an index out of range or met a second time is passed over, and
  the tasks it leaves out run afterwards in submission order, since the pool is left
  only when every task has run. Each task is one step on the shared state of the
  service. Every order is allowed whatever the number of workers, which is more than a
  pool can do (one worker runs the tasks in submission order). When a task raises,
  Python cancels the futures still pending, so that fewer tasks may run than here; a
  task on a row of \<^verbatim>\<open>read_queries\<close> does not raise.
\<close>

fun run_tasks ::
  "('a \<Rightarrow> 's \<Rightarrow> 'b \<times> 's) \<Rightarrow> 'a list \<Rightarrow> nat list \<Rightarrow> 'b option list \<Rightarrow> 's \<Rightarrow> 'b option list \<times> 's" where
  "run_tasks fn items [] futures s = (futures, s)"
| "run_tasks fn items (i # completion) futures s =
     (if i < length items \<and> futures ! i = None
      then (let (outcome, s') = fn (items ! i) s
            in run_tasks fn items completion (futures[i := Some outcome]) s')
      else run_tasks fn items completion futures s)"

text \<open>
  The iterator that \<^verbatim>\<open>map\<close> returns yields \<^verbatim>\<open>future.result()\<close> of the futures in
  submission order, and \<^verbatim>\<open>list\<close> collects them: the first future that holds an
  exception raises it. A future that no task ever completed would block
  \<^verbatim>\<open>result()\<close> for ever, which is the value \<^const>\<open>None\<close>.
\<close>

fun result_iterator :: "(error + 'b) option list \<Rightarrow> (error + 'b list) option" where
  "result_iterator [] = Some (Inr [])"
| "result_iterator (None # futures) = None"
| "result_iterator (Some (Inl e) # futures) = Some (Inl e)"
| "result_iterator (Some (Inr r) # futures) =
     (case result_iterator futures of
        None \<Rightarrow> None
      | Some (Inl e) \<Rightarrow> Some (Inl e)
      | Some (Inr rs) \<Rightarrow> Some (Inr (r # rs)))"

definition executor_map ::
  "('a \<Rightarrow> 's \<Rightarrow> (error + 'b) \<times> 's) \<Rightarrow> 'a list \<Rightarrow> nat list \<Rightarrow> 's \<Rightarrow> (error + 'b list) option \<times> 's" where
  "executor_map fn items completion s =
     (let futures = replicate (length items) None;
          (futures', s') = run_tasks fn items (completion @ [0..<length items]) futures s
      in (result_iterator futures', s'))"

text \<open>
  The state of the service in which the task of index \<open>j\<close> runs: the state that the
  tasks running before it have left.
\<close>

definition state_before :: "('a \<Rightarrow> 's \<Rightarrow> 'b \<times> 's) \<Rightarrow> 'a list \<Rightarrow> nat list \<Rightarrow> nat \<Rightarrow> 's \<Rightarrow> 's" where
  "state_before fn items completion j s =
     snd (run_tasks fn items (takeWhile (\<lambda>i. i \<noteq> j) (completion @ [0..<length items]))
            (replicate (length items) (None :: 'b option)) s)"

subsection \<open>Running the batch\<close>

text \<open>The task of line 122: \<^verbatim>\<open>lambda item: process_query(item["id"], item["query"])\<close>.\<close>

definition dispatch :: "'s agent \<Rightarrow> row \<Rightarrow> 's \<Rightarrow> (error + string \<times> string \<times> string) \<times> 's" where
  "dispatch get_agent_response item s =
     (case getitem item ''id'' of
        Inl e \<Rightarrow> (Inl e, s)
      | Inr query_id \<Rightarrow>
          (case getitem item ''query'' of
             Inl e \<Rightarrow> (Inl e, s)
           | Inr query \<Rightarrow>
               (let (result, s') = process_query get_agent_response query_id query s
                in (Inr result, s'))))"

text \<open>
  Lines 116 to 124 of \<^verbatim>\<open>run_bulk_test\<close>: the value of \<^verbatim>\<open>results\<close>, or the exception
  raised on the way, and the state of the service afterwards.
\<close>

definition run_bulk_test_results ::
  "'s agent \<Rightarrow> nat list \<Rightarrow> row list \<Rightarrow> int \<Rightarrow> 's
     \<Rightarrow> (error + (string \<times> string \<times> string) list) option \<times> 's" where
  "run_bulk_test_results get_agent_response completion queries num_workers s =
     (let actual_workers = min num_workers (int (length queries))
      in case ThreadPoolExecutor actual_workers of
           Inl e \<Rightarrow> (Some (Inl e), s)
         | Inr executor \<Rightarrow> executor_map (dispatch get_agent_response) queries completion s)"

subsection \<open>Paths and files\<close>

text \<open>
  A \<^verbatim>\<open>pathlib.Path\<close>: the directory part and the final component, \<^verbatim>\<open>Path.name\<close>. The
  file system is a map from paths to file contents; opening a file for writing and
  closing it sets the content. Directories are implicit, so
  \<^verbatim>\<open>output_path.parent.mkdir(parents=True, exist_ok=True)\<close> changes nothing here, and a
  disk that refuses a write is outside the model. A path with an empty name (\<^verbatim>\<open>.\<close> or
  the root) is a directory: opening it for writing raises \<^verbatim>\<open>IsADirectoryError\<close>.
\<close>

record path =
  parent :: "string list"
  name :: string

type_synonym files = "path \<rightharpoonup> string"

text \<open>\<^verbatim>\<open>str.rfind\<close> of one character: the highest index where it stands, \<open>-1\<close> if none.\<close>

definition rfind :: "string \<Rightarrow> char \<Rightarrow> int" where
  "rfind text c =
     (if c \<in> set text
      then int (length text) - 1 - int (length (takeWhile (\<lambda>x. x \<noteq> c) (rev text)))
      else - 1)"

text \<open>
  \<^verbatim>\<open>PurePath.suffix\<close> (CPython 3.12, \<^verbatim>\<open>Lib/pathlib.py\<close>):
  \<^verbatim>\<open>i = name.rfind('.'); return name[i:] if 0 < i < len(name) - 1 else ''\<close>.
\<close>

definition path_suffix :: "path \<Rightarrow> string" where
  "path_suffix p =
     (let i = rfind (name p) CHR ''.''
      in if 0 < i \<and> i < int (length (name p)) - 1 then drop (nat i) (name p) else [])"

text \<open>\<^verbatim>\<open>PurePath.stem\<close>: the name without its suffix.\<close>

definition stem :: "path \<Rightarrow> string" where
  "stem p = take (length (name p) - length (path_suffix p)) (name p)"

text \<open>
  \<^verbatim>\<open>PurePath.with_suffix\<close>: a suffix with a separator, or one that is not a dot followed
  by something, is refused, and so is a path with an empty name; otherwise the old
  suffix, if any, is cut off the name and the new one is appended. (The texts of the
  exceptions are abridged: Python adds the \<^verbatim>\<open>repr\<close> of the suffix or path.)
\<close>

definition with_suffix :: "path \<Rightarrow> string \<Rightarrow> error + path" where
  "with_suffix p new_suffix =
     (if CHR ''/'' \<in> set new_suffix then Inl (ValueError ''Invalid suffix'')
      else if (new_suffix \<noteq> [] \<and> hd new_suffix \<noteq> CHR ''.'') \<or> new_suffix = ''.''
        then Inl (ValueError ''Invalid suffix'')
      else if name p = [] then Inl (ValueError ''has an empty name'')
      else (let old_suffix = path_suffix p
            in Inr (p\<lparr>name :=
                 (if old_suffix = [] then name p @ new_suffix
                  else take (length (name p) - length old_suffix) (name p) @ new_suffix)\<rparr>)))"

subsection \<open>The JSON file\<close>

text \<open>\<^verbatim>\<open>sep.join(parts)\<close>.\<close>

fun join :: "string \<Rightarrow> string list \<Rightarrow> string" where
  "join sep [] = []"
| "join sep [x] = x"
| "join sep (x # y # ys) = x @ sep @ join sep (y # ys)"

text \<open>Four lower-case hexadecimal digits, as \<^verbatim>\<open>'{0:04x}'.format(n)\<close> gives them.\<close>

definition hex_digit :: "nat \<Rightarrow> char" where
  "hex_digit n =
     (let d = n mod 16
      in if d < 10 then char_of (of_char CHR ''0'' + d) else char_of (of_char CHR ''a'' + (d - 10)))"

definition hex4 :: "nat \<Rightarrow> string" where
  "hex4 n = [hex_digit (n div 4096), hex_digit (n div 256), hex_digit (n div 16), hex_digit n]"

text \<open>
  \<^verbatim>\<open>json.encoder.encode_basestring\<close>, the string encoder that \<^verbatim>\<open>ensure_ascii=False\<close>
  selects. The quotation mark, the backslash and the control characters below
  \<open>0x20\<close> are replaced: by a backslash and the character itself for the first two, by
  a backslash and \<open>n\<close>, \<open>r\<close>, \<open>t\<close>, \<open>b\<close> or \<open>f\<close> for line feed, carriage return, tab, backspace
  and form feed, and by a backslash, \<open>u\<close> and four hexadecimal digits for the other
  control characters. Every other character is written as it is.
\<close>

definition escape :: "char \<Rightarrow> string" where
  "escape c =
     (if c = CHR 0x22 then [CHR 0x5C, CHR 0x22]
      else if c = CHR 0x5C then [CHR 0x5C, CHR 0x5C]
      else if c = CHR 0x0A then [CHR 0x5C, CHR ''n'']
      else if c = CHR 0x0D then [CHR 0x5C, CHR ''r'']
      else if c = CHR 0x09 then [CHR 0x5C, CHR ''t'']
      else if c = CHR 0x08 then [CHR 0x5C, CHR ''b'']
      else if c = CHR 0x0C then [CHR 0x5C, CHR ''f'']
      else if (of_char c :: nat) < 0x20 then [CHR 0x5C, CHR ''u''] @ hex4 (of_char c)
      else [c])"

definition encode_basestring :: "string \<Rightarrow> string" where
  "encode_basestring s = [CHR 0x22] @ concat (map escape s) @ [CHR 0x22]"

text \<open>
  The encoder of \<^verbatim>\<open>json.dump(json_data, json_file, indent=2, ensure_ascii=False)\<close>
  (\<^verbatim>\<open>_make_iterencode\<close> in \<^verbatim>\<open>json/encoder.py\<close>), for the value the script gives it: a list
  of dicts from strings to strings. A dict is the list of its items in insertion order.
  With an indent, items are separated by a comma and a new line indented to the
  nesting level, and a key from its value by a colon and a space; an empty list is
  \<^verbatim>\<open>[]\<close> and an empty dict \<^verbatim>\<open>{}\<close>.
\<close>

definition newline_indent :: "nat \<Rightarrow> string" where
  "newline_indent level = CHR 0x0A # replicate (2 * level) CHR '' ''"

definition iterencode_dict :: "nat \<Rightarrow> (string \<times> string) list \<Rightarrow> string" where
  "iterencode_dict level dct =
     (if dct = [] then ''{}''
      else ''{'' @ newline_indent (level + 1) @
           join ('','' @ newline_indent (level + 1))
             (map (\<lambda>(key, v). encode_basestring key @ '': '' @ encode_basestring v) dct) @
           newline_indent level @ ''}'')"

definition iterencode_list :: "nat \<Rightarrow> (string \<times> string) list list \<Rightarrow> string" where
  "iterencode_list level lst =
     (if lst = [] then ''[]''
      else ''['' @ newline_indent (level + 1) @
           join ('','' @ newline_indent (level + 1)) (map (iterencode_dict (level + 1)) lst) @
           newline_indent level @ '']'')"

definition json_dump :: "(string \<times> string) list list \<Rightarrow> string" where
  "json_dump obj = iterencode_list 0 obj"

subsection \<open>The CSV file\<close>

text \<open>
  \<^verbatim>\<open>csv.writer(csv_file)\<close> with the default dialect: fields are separated by commas, a
  row ends with a carriage return and a line feed, and a field is put in quotation
  marks, with every quotation mark in it doubled, exactly when it contains a comma, a
  quotation mark, a carriage return or a line feed (\<^verbatim>\<open>QUOTE_MINIMAL\<close>). A row whose text
  would be empty, that of a single empty field, is written as two quotation marks.
\<close>

definition csv_field :: "string \<Rightarrow> string" where
  "csv_field field =
     (if \<exists>c \<in> set field. c \<in> {CHR '','', CHR 0x22, CHR 0x0D, CHR 0x0A}
      then [CHR 0x22] @ concat (map (\<lambda>c. if c = CHR 0x22 then [CHR 0x22, CHR 0x22] else [c]) field) @
           [CHR 0x22]
      else field)"

definition writerow :: "string list \<Rightarrow> string" where
  "writerow row =
     (let record = join '','' (map csv_field row)
      in (if row \<noteq> [] \<and> record = [] then [CHR 0x22, CHR 0x22] else record) @ [CHR 0x0D, CHR 0x0A])"

subsection \<open>Writing the results\<close>

text \<open>
  \<^verbatim>\<open>write_results\<close> (lines 85 to 104). Opening the output path fails, before anything
  is written, when its name is empty. Otherwise the JSON file is written and closed
  first; then the CSV path is computed and the CSV file is written row by row (the
  \<^verbatim>\<open>for\<close> loop is the \<^const>\<open>foldl\<close>). The outcome is the exception raised or the return,
  and the files as they are left.
\<close>

definition write_results ::
  "path \<Rightarrow> (string \<times> string \<times> string) list \<Rightarrow> files \<Rightarrow> (error + unit) \<times> files" where
  "write_results output_path results fs =
     (let json_data = map (\<lambda>result. [(''id'', fst result), (''query'', fst (snd result)),
                                       (''response'', snd (snd result))]) results
      in if name output_path = [] then (Inl IsADirectoryError, fs)
         else
           (let fs1 = fs(output_path \<mapsto> json_dump json_data)
            in case with_suffix output_path ''.csv'' of
                 Inl e \<Rightarrow> (Inl e, fs1)
               | Inr csv_path \<Rightarrow>
                   (let header = writerow [''id'', ''query'', ''response''];
                        csv_text = foldl (\<lambda>text result.
                                      text @ writerow [fst result, fst (snd result), snd (snd result)])
                                    header results
                    in (Inr (), fs1(csv_path \<mapsto> csv_text)))))"

subsection \<open>The whole run\<close>

text \<open>
  \<^verbatim>\<open>run_bulk_test\<close> (lines 111 to 136), without what it prints on the console: the
  rendering of the results (lines 126 and 127), which the library may refuse with an
  exception of its own before anything is written, is outside the model. \<open>reader\<close>
  are the rows of the CSV file, \<open>timestamp\<close> is the text that
  \<^verbatim>\<open>dt.datetime.now().strftime("%Y%m%d_%H%M%S")\<close> gives when the results are complete.
  The outcome is the exception that ends the run or its return, the state of the
  service and the files.
\<close>

definition RESULTS_DIR :: "string list" where
  "RESULTS_DIR = [''results'']"

definition run_bulk_test ::
  "'s agent \<Rightarrow> nat list \<Rightarrow> string \<Rightarrow> row list \<Rightarrow> int \<Rightarrow> 's \<Rightarrow> files
     \<Rightarrow> (error + unit) option \<times> 's \<times> files" where
  "run_bulk_test get_agent_response completion timestamp reader num_workers s fs =
     (let queries = read_queries reader
      in case run_bulk_test_results get_agent_response completion queries num_workers s of
           (None, s') \<Rightarrow> (None, s', fs)
         | (Some (Inl e), s') \<Rightarrow> (Some (Inl e), s', fs)
         | (Some (Inr results), s') \<Rightarrow>
             (let output_path = \<lparr>parent = RESULTS_DIR, name = ''results_'' @ timestamp @ ''.json''\<rparr>;
                  (raised, fs') = write_results output_path results fs
              in (Some raised, s', fs')))"

subsection \<open>Reading the JSON file back\<close>

text \<open>
  The script does not read its output. To compare the JSON file with the results, the
  file is read the way \<^verbatim>\<open>json.load\<close> reads it (\<^verbatim>\<open>json/decoder.py\<close>: \<^verbatim>\<open>py_scanstring\<close>,
  \<^verbatim>\<open>JSONObject\<close>, \<^verbatim>\<open>JSONArray\<close> and \<^verbatim>\<open>JSONDecoder.decode\<close>), for the values the script
  writes: a list of dicts whose values are strings. Any other text, or other JSON, is
  refused with \<^const>\<open>None\<close>. A function takes the text that is left to read and returns
  what it read and the text after it.
\<close>

definition whitespace :: "char \<Rightarrow> bool" where
  "whitespace c = (c \<in> {CHR '' '', CHR 0x09, CHR 0x0A, CHR 0x0D})"

definition skip_ws :: "string \<Rightarrow> string" where
  "skip_ws text = dropWhile whitespace text"

definition expect :: "char \<Rightarrow> string \<Rightarrow> string option" where
  "expect c text = (case text of [] \<Rightarrow> None | x # rest \<Rightarrow> if x = c then Some rest else None)"

text \<open>The escapes of one character after a backslash (\<^verbatim>\<open>BACKSLASH\<close> in the decoder).\<close>

definition backslash :: "char \<Rightarrow> char option" where
  "backslash esc =
     (if esc = CHR 0x22 then Some (CHR 0x22)
      else if esc = CHR 0x5C then Some (CHR 0x5C)
      else if esc = CHR ''/'' then Some (CHR ''/'')
      else if esc = CHR ''b'' then Some (CHR 0x08)
      else if esc = CHR ''f'' then Some (CHR 0x0C)
      else if esc = CHR ''n'' then Some (CHR 0x0A)
      else if esc = CHR ''r'' then Some (CHR 0x0D)
      else if esc = CHR ''t'' then Some (CHR 0x09)
      else None)"

text \<open>
  The escape \<open>u\<close> with four hexadecimal digits names a code point, which stands in the
  string as its UTF-8 bytes. Escaped surrogates, which the encoder above never writes,
  are not read.
\<close>

definition hex_value :: "char \<Rightarrow> nat option" where
  "hex_value c =
     (let n = of_char c :: nat
      in if 48 \<le> n \<and> n \<le> 57 then Some (n - 48)
         else if 97 \<le> n \<and> n \<le> 102 then Some (n - 87)
         else if 65 \<le> n \<and> n \<le> 70 then Some (n - 55)
         else None)"

definition decode_uXXXX :: "string \<Rightarrow> nat option" where
  "decode_uXXXX digits =
     (case map hex_value digits of
        [Some a, Some b, Some c, Some d] \<Rightarrow> Some (((a * 16 + b) * 16 + c) * 16 + d)
      | _ \<Rightarrow> None)"

definition utf8 :: "nat \<Rightarrow> string option" where
  "utf8 cp =
     (if cp < 0x80 then Some [char_of cp]
      else if cp < 0x800 then Some [char_of (0xC0 + cp div 64), char_of (0x80 + cp mod 64)]
      else if 0xD800 \<le> cp \<and> cp < 0xE000 then None
      else Some [char_of (0xE0 + cp div 4096), char_of (0x80 + cp div 64 mod 64),
                 char_of (0x80 + cp mod 64)])"

text \<open>
  \<^verbatim>\<open>scanstring\<close>, called after the opening quotation mark: the string up to the closing
  quotation mark, with the escapes replaced. A control character inside a string is an
  error (the decoder is strict by default), and so is the end of the text.
\<close>

fun scanstring :: "string \<Rightarrow> (string \<times> string) option" where
  "scanstring [] = None"
| "scanstring (c # cs) =
     (if c = CHR 0x22 then Some ([], cs)
      else if c = CHR 0x5C then
        (case cs of
           [] \<Rightarrow> None
         | esc # cs' \<Rightarrow>
             if esc = CHR ''u'' then
               (case Option.bind (decode_uXXXX (take 4 cs')) utf8 of
                  None \<Rightarrow> None
                | Some bytes \<Rightarrow>
                    map_option (\<lambda>(s, rest). (bytes @ s, rest)) (scanstring (drop 4 cs')))
             else
               (case backslash esc of
                  None \<Rightarrow> None
                | Some ch \<Rightarrow> map_option (\<lambda>(s, rest). (ch # s, rest)) (scanstring cs')))
      else if (of_char c :: nat) < 0x20 then None
      else map_option (\<lambda>(s, rest). (c # s, rest)) (scanstring cs))"

text \<open>
  One item of a dict, called after the opening quotation mark of the key: the key, a
  colon, and the value, which must be a string.
\<close>

definition scan_item :: "string \<Rightarrow> ((string \<times> string) \<times> string) option" where
  "scan_item text =
     (case scanstring text of
        None \<Rightarrow> None
      | Some (key, rest) \<Rightarrow>
          (case expect CHR '':'' (skip_ws rest) of
             None \<Rightarrow> None
           | Some rest1 \<Rightarrow>
               (case expect CHR 0x22 (skip_ws rest1) of
                  None \<Rightarrow> None
                | Some rest2 \<Rightarrow>
                    (case scanstring rest2 of
                       None \<Rightarrow> None
                     | Some (v, rest3) \<Rightarrow> Some ((key, v), rest3)))))"

lemma scanstring_shorter: "scanstring inp = Some (s, rest) \<Longrightarrow> length rest < length inp"
proof (induction inp arbitrary: s rest rule: scanstring.induct)
  case 1
  then show ?case by simp
next
  case (2 c cs)
  then show ?case
    by (fastforce split: if_splits list.splits option.splits)
qed

lemma skip_ws_shorter: "length (skip_ws inp) \<le> length inp"
  by (simp add: skip_ws_def length_dropWhile_le)

lemma expect_shorter: "expect c inp = Some rest \<Longrightarrow> length rest < length inp"
  by (auto simp: expect_def split: list.splits if_splits)

lemma scan_item_shorter: "scan_item inp = Some (item, rest) \<Longrightarrow> length rest < length inp"
proof -
  assume "scan_item inp = Some (item, rest)"
  then obtain key r0 r1 r2 v where
    "scanstring inp = Some (key, r0)" "expect CHR '':'' (skip_ws r0) = Some r1"
    "expect CHR 0x22 (skip_ws r1) = Some r2" "scanstring r2 = Some (v, rest)"
    by (auto simp: scan_item_def split: option.splits)
  then show ?thesis
    using scanstring_shorter[of inp key r0] expect_shorter[of "CHR '':''" "skip_ws r0" r1]
      expect_shorter[of "CHR 0x22" "skip_ws r1" r2] scanstring_shorter[of r2 v rest]
      skip_ws_shorter[of r0] skip_ws_shorter[of r1]
    by linarith
qed

text \<open>
  The items of a dict after the first quotation mark, up to the closing brace:
  after an item comes the brace, or a comma and the quotation mark of the next key.
\<close>

function scan_items :: "string \<Rightarrow> ((string \<times> string) list \<times> string) option" where
  "scan_items text =
     (case scan_item text of
        None \<Rightarrow> None
      | Some (item, rest) \<Rightarrow>
          (case skip_ws rest of
             [] \<Rightarrow> None
           | c # rest1 \<Rightarrow>
               if c = CHR ''}'' then Some ([item], rest1)
               else if c = CHR '','' then
                 (case expect CHR 0x22 (skip_ws rest1) of
                    None \<Rightarrow> None
                  | Some rest2 \<Rightarrow> map_option (\<lambda>(items, r). (item # items, r)) (scan_items rest2))
               else None))"
  by pat_completeness auto
termination
proof (relation "measure length")
  fix inp :: string and x2 item rest c rest1 rest2
  assume "scan_item inp = Some x2" "(item, rest) = x2" "skip_ws rest = c # rest1"
    "expect CHR 0x22 (skip_ws rest1) = Some rest2"
  then show "(rest2, inp) \<in> measure length"
    using scan_item_shorter[of inp item rest] skip_ws_shorter[of rest] skip_ws_shorter[of rest1]
      expect_shorter[of "CHR 0x22" "skip_ws rest1" rest2]
    by simp
qed simp

text \<open>\<^verbatim>\<open>JSONObject\<close>, called after the opening brace.\<close>

definition JSONObject :: "string \<Rightarrow> ((string \<times> string) list \<times> string) option" where
  "JSONObject text =
     (case skip_ws text of
        [] \<Rightarrow> None
      | c # rest \<Rightarrow>
          if c = CHR ''}'' then Some ([], rest)
          else if c = CHR 0x22 then scan_items rest
          else None)"

lemma scan_items_shorter: "scan_items inp = Some (items, rest) \<Longrightarrow> length rest < length inp"
proof (induction inp arbitrary: items rest rule: scan_items.induct)
  case (1 inp)
  from "1.prems" obtain item r0 c r1 where
    item: "scan_item inp = Some (item, r0)" and ws: "skip_ws r0 = c # r1"
    by (subst (asm) scan_items.simps) (auto split: option.splits list.splits)
  have r1: "length r1 < length inp"
    using scan_item_shorter[OF item] skip_ws_shorter[of r0] ws by simp
  show ?case
  proof (cases "c = CHR ''}''")
    case True
    then have "rest = r1" using "1.prems" item ws by (subst (asm) scan_items.simps) simp
    then show ?thesis using r1 by simp
  next
    case False
    then obtain r2 its where c: "c = CHR '',''" and
      r2: "expect CHR 0x22 (skip_ws r1) = Some r2" and its: "scan_items r2 = Some (its, rest)"
      using "1.prems" item ws
      by (subst (asm) scan_items.simps) (auto split: option.splits if_splits)
    have "length rest < length r2"
      using "1.IH"[OF item refl ws False c r2 its] .
    then show ?thesis
      using expect_shorter[OF r2] skip_ws_shorter[of r1] r1 by simp
  qed
qed

lemma JSONObject_shorter: "JSONObject inp = Some (items, rest) \<Longrightarrow> length rest < length inp"
proof -
  assume a: "JSONObject inp = Some (items, rest)"
  then obtain c r where ws: "skip_ws inp = c # r"
    by (auto simp: JSONObject_def split: list.splits)
  have "length rest \<le> length r"
    using a ws scan_items_shorter[of r items rest]
    by (auto simp: JSONObject_def split: if_splits)
  then show ?thesis using skip_ws_shorter[of inp] ws by simp
qed

text \<open>
  The values of a list, called at the first one, up to the closing bracket: a value
  must be a dict; after it comes the bracket, or a comma and the next value.
\<close>

function scan_values :: "string \<Rightarrow> ((string \<times> string) list list \<times> string) option" where
  "scan_values text =
     (case expect CHR ''{'' text of
        None \<Rightarrow> None
      | Some rest \<Rightarrow>
          (case JSONObject rest of
             None \<Rightarrow> None
           | Some (obj, rest1) \<Rightarrow>
               (case skip_ws rest1 of
                  [] \<Rightarrow> None
                | c # rest2 \<Rightarrow>
                    if c = CHR '']'' then Some ([obj], rest2)
                    else if c = CHR '','' then
                      map_option (\<lambda>(objs, r). (obj # objs, r)) (scan_values (skip_ws rest2))
                    else None)))"
  by pat_completeness auto
termination
proof (relation "measure length")
  fix inp :: string and rest x2 obj rest1 c rest2
  assume "expect CHR ''{'' inp = Some rest" "JSONObject rest = Some x2" "(obj, rest1) = x2"
    "skip_ws rest1 = c # rest2"
  then show "(skip_ws rest2, inp) \<in> measure length"
    using expect_shorter[of "CHR ''{''" inp rest] JSONObject_shorter[of rest obj rest1]
      skip_ws_shorter[of rest1] skip_ws_shorter[of rest2]
    by simp
qed simp

text \<open>\<^verbatim>\<open>JSONArray\<close>, called after the opening bracket.\<close>

definition JSONArray :: "string \<Rightarrow> ((string \<times> string) list list \<times> string) option" where
  "JSONArray text =
     (case skip_ws text of
        [] \<Rightarrow> None
      | c # rest \<Rightarrow> if c = CHR '']'' then Some ([], rest) else scan_values (c # rest))"

text \<open>
  \<^verbatim>\<open>json.load\<close> of a file that holds a list: white space, the list, white space, and
  nothing more.
\<close>

definition json_load :: "string \<Rightarrow> (string \<times> string) list list option" where
  "json_load text =
     (case expect CHR ''['' (skip_ws text) of
        None \<Rightarrow> None
      | Some rest \<Rightarrow>
          (case JSONArray rest of
             None \<Rightarrow> None
           | Some (lst, rest1) \<Rightarrow> if skip_ws rest1 = [] then Some lst else None))"

text \<open>
  The triples of a JSON file: \<^verbatim>\<open>json.load\<close>, then \<^verbatim>\<open>(d["id"], d["query"], d["response"])\<close>
  for every dict \<open>d\<close> of the list. The decoder builds a dict from the items in the order
  read, so of two items with one key the later one counts.
\<close>

definition triple_of :: "(string \<times> string) list \<Rightarrow> (string \<times> string \<times> string) option" where
  "triple_of items =
     (let d = map_of (rev items)
      in case (d ''id'', d ''query'', d ''response'') of
           (Some i, Some q, Some r) \<Rightarrow> Some (i, q, r)
         | _ \<Rightarrow> None)"

definition read_triples :: "string \<Rightarrow> (string \<times> string \<times> string) list option" where
  "read_triples text =
     (case json_load text of
        None \<Rightarrow> None
      | Some lst \<Rightarrow> those (map triple_of lst))"

subsection \<open>The data model of the specification\<close>

text \<open>
  A QueryRecord of the specification: a row with a non-empty \<^verbatim>\<open>id\<close> and a non-empty
  \<^verbatim>\<open>query\<close>.
\<close>

definition QueryRecord :: "row \<Rightarrow> bool" where
  "QueryRecord item = (item ''id'' \<notin> {None, Some []} \<and> item ''query'' \<notin> {None, Some []})"

section \<open>Properties\<close>

subsection \<open>One dispatch\<close>

lemma process_query_state:
  "snd (process_query agent query_id query s) = snd (agent [\<lparr>role = ''user'', content = query\<rparr>] s)"
  by (simp add: process_query_def Let_def split: prod.splits sum.splits)

lemma process_query_cong:
  "agent' [\<lparr>role = ''user'', content = query\<rparr>] s = agent [\<lparr>role = ''user'', content = query\<rparr>] s \<Longrightarrow>
   process_query agent' query_id query s = process_query agent query_id query s"
  by (simp add: process_query_def)

lemma process_query_returns:
  "\<exists>response s'. process_query agent query_id query s = ((query_id, query, response), s')"
  by (auto simp: process_query_def Let_def split: prod.splits sum.splits)

text \<open>
  C4. When the agent returns a conversation whose last turn does not have the role
  \<^verbatim>\<open>assistant\<close>, the response of the result is exactly the sentinel text
  \<^verbatim>\<open>Error: No assistant reply found\<close>.
\<close>

theorem no_assistant_reply:
  assumes "agent [\<lparr>role = ''user'', content = query\<rparr>] s = (Inr updated_history, s')"
    and "updated_history \<noteq> []"
    and "role (last updated_history) \<noteq> ''assistant''"
  shows "process_query agent query_id query s =
           ((query_id, query, ''Error: No assistant reply found''), s')"
  using assms by (simp add: process_query_def extract_response_def getitem_last_def)

theorem no_assistant_reply_witness:
  "(\<lambda>conv s. (Inr conv, s)) [\<lparr>role = ''user'', content = ''soup?''\<rparr>] (0::nat) =
     (Inr [\<lparr>role = ''user'', content = ''soup?''\<rparr>], 0) \<and>
   [\<lparr>role = ''user'', content = ''soup?''\<rparr>] \<noteq> [] \<and>
   role (last [\<lparr>role = ''user'', content = ''soup?''\<rparr>]) \<noteq> ''assistant'' \<and>
   process_query (\<lambda>conv s. (Inr conv, s)) ''7'' ''soup?'' (0::nat) =
     ((''7'', ''soup?'', ''Error: No assistant reply found''), 0)"
  using no_assistant_reply [of "\<lambda>conv s. (Inr conv, s)" "''soup?''" "0::nat"
      "[\<lparr>role = ''user'', content = ''soup?''\<rparr>]" 0 "''7''"]
  by simp

text \<open>
  C5. When the agent returns a conversation whose last turn has the role
  \<^verbatim>\<open>assistant\<close>, the response of the result is the content of that turn.
\<close>

theorem assistant_reply:
  assumes "agent [\<lparr>role = ''user'', content = query\<rparr>] s = (Inr updated_history, s')"
    and "updated_history \<noteq> []"
    and "role (last updated_history) = ''assistant''"
  shows "process_query agent query_id query s =
           ((query_id, query, content (last updated_history)), s')"
  using assms by (simp add: process_query_def extract_response_def getitem_last_def)

theorem assistant_reply_witness:
  "(\<lambda>conv s. (Inr (conv @ [\<lparr>role = ''assistant'', content = ''Try miso.''\<rparr>]), Suc s))
     [\<lparr>role = ''user'', content = ''soup?''\<rparr>] (0::nat) =
     (Inr [\<lparr>role = ''user'', content = ''soup?''\<rparr>, \<lparr>role = ''assistant'', content = ''Try miso.''\<rparr>], 1) \<and>
   [\<lparr>role = ''user'', content = ''soup?''\<rparr>, \<lparr>role = ''assistant'', content = ''Try miso.''\<rparr>] \<noteq> [] \<and>
   role (last [\<lparr>role = ''user'', content = ''soup?''\<rparr>, \<lparr>role = ''assistant'', content = ''Try miso.''\<rparr>])
     = ''assistant'' \<and>
   process_query (\<lambda>conv s. (Inr (conv @ [\<lparr>role = ''assistant'', content = ''Try miso.''\<rparr>]), Suc s))
     ''7'' ''soup?'' (0::nat) = ((''7'', ''soup?'', ''Try miso.''), 1)"
  using assistant_reply [of "\<lambda>conv s. (Inr (conv @ [\<lparr>role = ''assistant'', content = ''Try miso.''\<rparr>]), Suc s)"
      "''soup?''" "0::nat"
      "[\<lparr>role = ''user'', content = ''soup?''\<rparr>, \<lparr>role = ''assistant'', content = ''Try miso.''\<rparr>]"
      1 "''7''"]
  by simp

text \<open>
  C9. Whatever the agent does (a reply, no assistant turn, an exception), the result of
  a dispatch carries the id and the query it was given, unchanged.
\<close>

theorem process_query_keeps_id_and_query:
  "fst (fst (process_query agent query_id query s)) = query_id \<and>
   fst (snd (fst (process_query agent query_id query s))) = query"
  using process_query_returns [of agent query_id query s] by auto

text \<open>
  C10. When the agent returns an empty conversation, the emptiness test comes before
  the index: no \<^verbatim>\<open>IndexError\<close> is raised (its text would be the response), and the
  response is the sentinel text.
\<close>

theorem empty_conversation:
  assumes "agent [\<lparr>role = ''user'', content = query\<rparr>] s = (Inr [], s')"
  shows "extract_response [] = Inr ''Error: No assistant reply found'' \<and>
         process_query agent query_id query s =
           ((query_id, query, ''Error: No assistant reply found''), s')"
  using assms by (simp add: process_query_def extract_response_def)

theorem empty_conversation_witness:
  "(\<lambda>conv s. (Inr [], s)) [\<lparr>role = ''user'', content = ''soup?''\<rparr>] (0::nat) = (Inr [], 0) \<and>
   extract_response [] = Inr ''Error: No assistant reply found'' \<and>
   process_query (\<lambda>conv s. (Inr [], s)) ''7'' ''soup?'' (0::nat) =
     ((''7'', ''soup?'', ''Error: No assistant reply found''), 0)"
  using empty_conversation [of "\<lambda>conv s. (Inr [], s)" "''soup?''" "0::nat" 0 "''7''"]
  by simp

subsection \<open>Reading the queries\<close>

lemma truthy_iff: "truthy v \<longleftrightarrow> v \<notin> {None, Some []}"
  by (cases v) (simp_all add: truthy_def)

text \<open>
  C6. The reader returns exactly the rows with a non-empty id and a non-empty query, in
  file order; the other rows are dropped, and no row raises.
\<close>

theorem read_queries_keeps_query_records:
  "read_queries reader = filter QueryRecord reader \<and>
   subseq (read_queries reader) reader \<and>
   list_all QueryRecord (read_queries reader)"
  by (simp add: read_queries_def QueryRecord_def[abs_def] truthy_iff list_all_iff)

theorem read_queries_keeps_query_records_witness:
  "read_queries [[''id'' \<mapsto> ''1'', ''query'' \<mapsto> ''vegan breakfast?''], [''id'' \<mapsto> ''2'', ''query'' \<mapsto> []]] =
     filter QueryRecord [[''id'' \<mapsto> ''1'', ''query'' \<mapsto> ''vegan breakfast?''], [''id'' \<mapsto> ''2'', ''query'' \<mapsto> []]] \<and>
   filter QueryRecord [[''id'' \<mapsto> ''1'', ''query'' \<mapsto> ''vegan breakfast?''], [''id'' \<mapsto> ''2'', ''query'' \<mapsto> []]] =
     [[''id'' \<mapsto> ''1'', ''query'' \<mapsto> ''vegan breakfast?'']]"
  using read_queries_keeps_query_records
    [of "[[''id'' \<mapsto> ''1'', ''query'' \<mapsto> ''vegan breakfast?''], [''id'' \<mapsto> ''2'', ''query'' \<mapsto> []]]"]
  by (simp add: QueryRecord_def)

subsection \<open>The thread pool\<close>

lemma run_tasks_length: "length (fst (run_tasks fn items completion futures s)) = length futures"
  by (induction completion arbitrary: futures s) (auto split: prod.splits)

lemma run_tasks_keeps:
  "futures ! i = Some r \<Longrightarrow> fst (run_tasks fn items completion futures s) ! i = Some r"
proof (induction completion arbitrary: futures s)
  case Nil
  then show ?case by simp
next
  case (Cons j completion)
  then show ?case
    by (cases "i = j") (auto split: prod.splits simp: nth_list_update)
qed

lemma run_tasks_done:
  "i \<in> set completion \<Longrightarrow> i < length items \<Longrightarrow> length futures = length items \<Longrightarrow>
   fst (run_tasks fn items completion futures s) ! i \<noteq> None"
proof (induction completion arbitrary: futures s)
  case Nil
  then show ?case by simp
next
  case (Cons j completion)
  show ?case
  proof (cases "futures ! i")
    case (Some r)
    from run_tasks_keeps[OF Some, of fn items "j # completion" s] show ?thesis by (simp del: run_tasks.simps)
  next
    case None
    show ?thesis
    proof (cases "i = j")
      case True
      obtain outcome s' where f: "fn (items ! j) s = (outcome, s')" by (cases "fn (items ! j) s")
      have "(futures[j := Some outcome]) ! i = Some outcome"
        using True Cons.prems by simp
      from run_tasks_keeps[OF this, of fn items completion s'] show ?thesis
        using True None Cons.prems f by simp
    next
      case False
      then have "i \<in> set completion" using Cons.prems by simp
      then show ?thesis
        using Cons.IH Cons.prems by (auto split: prod.splits)
    qed
  qed
qed

lemma run_tasks_invariant:
  assumes "\<And>i s. i < length items \<Longrightarrow> Q i (fst (fn (items ! i) s))"
    and "\<And>i r. i < length futures \<Longrightarrow> futures ! i = Some r \<Longrightarrow> Q i r"
    and "length futures = length items"
    and "i < length items"
    and "fst (run_tasks fn items completion futures s) ! i = Some r"
  shows "Q i r"
  using assms(2-)
proof (induction completion arbitrary: futures s)
  case Nil
  then show ?case by simp
next
  case (Cons j completion)
  show ?case
  proof (cases "j < length items \<and> futures ! j = None")
    case True
    obtain outcome s' where f: "fn (items ! j) s = (outcome, s')" by (cases "fn (items ! j) s")
    have q: "Q j outcome" using assms(1)[of j s] True f by simp
    show ?thesis
    proof (rule Cons.IH[of "futures[j := Some outcome]" s'])
      fix k r' assume "k < length (futures[j := Some outcome])" "futures[j := Some outcome] ! k = Some r'"
      then show "Q k r'" using Cons.prems(1)[of k r'] q by (cases "k = j") auto
    next
      show "length (futures[j := Some outcome]) = length items" using Cons.prems by simp
      show "i < length items" by fact
      show "fst (run_tasks fn items completion (futures[j := Some outcome]) s') ! i = Some r"
        using Cons.prems(4) True f by simp
    qed
  next
    case False
    then have "fst (run_tasks fn items completion futures s) ! i = Some r"
      using Cons.prems(4) by auto
    then show ?thesis using Cons.IH[of futures s] Cons.prems by blast
  qed
qed

lemma result_iterator_all:
  "\<forall>x\<in>set futures. \<exists>r. x = Some (Inr r) \<Longrightarrow>
   \<exists>rs. result_iterator futures = Some (Inr rs) \<and> length rs = length futures \<and>
        (\<forall>i<length futures. futures ! i = Some (Inr (rs ! i)))"
proof (induction futures)
  case Nil
  then show ?case by simp
next
  case (Cons x futures)
  then obtain r where x: "x = Some (Inr r)" by auto
  from Cons obtain rs where rs: "result_iterator futures = Some (Inr rs)" "length rs = length futures"
    "\<forall>i<length futures. futures ! i = Some (Inr (rs ! i))" by auto
  show ?case
    using x rs by (auto simp: nth_Cons split: nat.splits)
qed

lemma run_tasks_agree:
  assumes same_state: "\<And>i s. i < length items \<Longrightarrow> snd (fn' (items ! i) s) = snd (fn (items ! i) s)"
    and same_outcome: "\<And>i s. i < length items \<Longrightarrow> P i \<Longrightarrow> fst (fn' (items ! i) s) = fst (fn (items ! i) s)"
    and "length futures = length items" and "length futures' = length items"
    and "\<And>i. i < length items \<Longrightarrow> (futures' ! i = None) = (futures ! i = None)"
    and "\<And>i. i < length items \<Longrightarrow> P i \<Longrightarrow> futures' ! i = futures ! i"
  shows "snd (run_tasks fn' items completion futures' s) = snd (run_tasks fn items completion futures s) \<and>
         (\<forall>i<length items. P i \<longrightarrow>
            fst (run_tasks fn' items completion futures' s) ! i = fst (run_tasks fn items completion futures s) ! i)"
  using assms(3-)
proof (induction completion arbitrary: futures futures' s)
  case Nil
  then show ?case by simp
next
  case (Cons j completion)
  show ?case
  proof (cases "j < length items \<and> futures ! j = None")
    case True
    then have True': "j < length items \<and> futures' ! j = None" using Cons.prems(3) by simp
    obtain outcome s1 where f: "fn (items ! j) s = (outcome, s1)" by (cases "fn (items ! j) s")
    obtain outcome' s1' where f': "fn' (items ! j) s = (outcome', s1')" by (cases "fn' (items ! j) s")
    have s1: "s1' = s1" using same_state[of j s] True f f' by simp
    have o: "P j \<Longrightarrow> outcome' = outcome" using same_outcome[of j s] True f f' by simp
    have "snd (run_tasks fn' items completion (futures'[j := Some outcome']) s1) =
          snd (run_tasks fn items completion (futures[j := Some outcome]) s1) \<and>
         (\<forall>i<length items. P i \<longrightarrow>
            fst (run_tasks fn' items completion (futures'[j := Some outcome']) s1) ! i =
            fst (run_tasks fn items completion (futures[j := Some outcome]) s1) ! i)"
    proof (rule Cons.IH)
      show "length (futures[j := Some outcome]) = length items" using Cons.prems by simp
      show "length (futures'[j := Some outcome']) = length items" using Cons.prems by simp
      show "(futures'[j := Some outcome'] ! i = None) = (futures[j := Some outcome] ! i = None)"
        if "i < length items" for i
        using that Cons.prems by (cases "i = j") simp_all
      show "futures'[j := Some outcome'] ! i = futures[j := Some outcome] ! i"
        if "i < length items" "P i" for i
        using that Cons.prems o by (cases "i = j") simp_all
    qed
    moreover have "run_tasks fn items (j # completion) futures s =
        run_tasks fn items completion (futures[j := Some outcome]) s1"
      using True f by simp
    moreover have "run_tasks fn' items (j # completion) futures' s =
        run_tasks fn' items completion (futures'[j := Some outcome']) s1"
      using True' f' s1 by simp
    ultimately show ?thesis by simp
  next
    case False
    have False': "\<not> (j < length items \<and> futures' ! j = None)"
    proof (cases "j < length items")
      case True
      with False Cons.prems(3)[of j] show ?thesis by simp
    next
      case False
      then show ?thesis by simp
    qed
    have "run_tasks fn items (j # completion) futures s = run_tasks fn items completion futures s"
      by (simp only: run_tasks.simps False if_False)
    moreover have "run_tasks fn' items (j # completion) futures' s = run_tasks fn' items completion futures' s"
      by (simp only: run_tasks.simps False' if_False)
    ultimately show ?thesis using Cons.IH[OF Cons.prems] by simp
  qed
qed

subsection \<open>The batch\<close>

text \<open>
  What a dispatch leaves in the future of a row: the result that \<^const>\<open>process_query\<close>
  returns for the id and the query of that row, called in some state of the service.
\<close>

definition dispatched :: "'s agent \<Rightarrow> row \<Rightarrow> (error + string \<times> string \<times> string) \<Rightarrow> bool" where
  "dispatched agent item outcome =
     (\<exists>query_id query s. item ''id'' = Some query_id \<and> item ''query'' = Some query \<and>
        outcome = Inr (fst (process_query agent query_id query s)))"

lemma dispatch_QueryRecord:
  assumes "QueryRecord item"
  shows "dispatched agent item (fst (dispatch agent item s))"
proof -
  from assms obtain query_id query where item: "item ''id'' = Some query_id" "item ''query'' = Some query"
    by (auto simp: QueryRecord_def)
  then have "fst (dispatch agent item s) = Inr (fst (process_query agent query_id query s))"
    by (simp add: dispatch_def getitem_def split: prod.splits)
  with item show ?thesis unfolding dispatched_def by blast
qed

lemma dispatched_id:
  "dispatched agent item (Inr result) \<Longrightarrow> item ''id'' = Some (fst result) \<and> item ''query'' = Some (fst (snd result))"
proof -
  assume "dispatched agent item (Inr result)"
  then obtain query_id query s where d: "item ''id'' = Some query_id" "item ''query'' = Some query"
    "result = fst (process_query agent query_id query s)"
    unfolding dispatched_def by blast
  from process_query_returns[of agent query_id query s] d(3)
  have "fst result = query_id" "fst (snd result) = query" by auto
  with d show ?thesis by simp
qed

lemma executor_map_dispatch:
  assumes "list_all QueryRecord queries"
  shows "\<exists>results. executor_map (dispatch agent) queries completion s =
             (Some (Inr results),
              snd (run_tasks (dispatch agent) queries (completion @ [0..<length queries])
                     (replicate (length queries) None) s)) \<and>
           length results = length queries \<and>
           (\<forall>i<length queries.
              fst (run_tasks (dispatch agent) queries (completion @ [0..<length queries])
                     (replicate (length queries) None) s) ! i = Some (Inr (results ! i)) \<and>
              dispatched agent (queries ! i) (Inr (results ! i)))"
proof -
  let ?n = "length queries"
  let ?run = "run_tasks (dispatch agent) queries (completion @ [0..<?n]) (replicate ?n None) s"
  obtain futures s' where run: "?run = (futures, s')" by (cases ?run)
  have len: "length futures = ?n"
    using run_tasks_length[of "dispatch agent" queries "completion @ [0..<?n]" "replicate ?n None" s] run
    by simp
  have ran: "futures ! i \<noteq> None" if "i < ?n" for i
    using run_tasks_done[of i "completion @ [0..<?n]" queries "replicate ?n None" "dispatch agent" s] that run
    by simp
  have inv: "dispatched agent (queries ! i) r" if "i < ?n" "futures ! i = Some r" for i r
  proof (rule run_tasks_invariant[where Q = "\<lambda>i r. dispatched agent (queries ! i) r"
        and fn = "dispatch agent" and items = queries and futures = "replicate ?n None"
        and completion = "completion @ [0..<?n]" and s = s and i = i])
    fix j t assume "j < ?n"
    then have "QueryRecord (queries ! j)" using assms by (simp add: list_all_length)
    then show "dispatched agent (queries ! j) (fst (dispatch agent (queries ! j) t))"
      by (rule dispatch_QueryRecord)
  next
    fix j and r' :: "error + string \<times> string \<times> string"
    assume "j < length (replicate ?n (None :: (error + string \<times> string \<times> string) option))"
      "replicate ?n None ! j = Some r'"
    then show "dispatched agent (queries ! j) r'" by simp
  next
    show "fst ?run ! i = Some r" using run that by simp
  qed (use that in simp_all)
  have "\<forall>x\<in>set futures. \<exists>r. x = Some (Inr r)"
  proof
    fix x assume "x \<in> set futures"
    then obtain i where i: "i < ?n" "x = futures ! i" using len by (auto simp: in_set_conv_nth)
    with ran[of i] obtain r where r: "futures ! i = Some r" by auto
    from inv[OF i(1) r] obtain res where "r = Inr res" unfolding dispatched_def by blast
    then show "\<exists>r. x = Some (Inr r)" using i r by blast
  qed
  from result_iterator_all[OF this] obtain rs where rs: "result_iterator futures = Some (Inr rs)"
    "length rs = length futures" "\<forall>i<length futures. futures ! i = Some (Inr (rs ! i))" by blast
  have "executor_map (dispatch agent) queries completion s = (Some (Inr rs), s')"
    using run rs by (simp add: executor_map_def)
  moreover have "\<forall>i<?n. futures ! i = Some (Inr (rs ! i)) \<and> dispatched agent (queries ! i) (Inr (rs ! i))"
    using inv rs len by auto
  ultimately show ?thesis using rs len run by auto
qed

lemma ThreadPoolExecutor_positive:
  "0 < num_workers \<Longrightarrow> queries \<noteq> [] \<Longrightarrow>
   ThreadPoolExecutor (min num_workers (int (length queries))) = Inr (min num_workers (int (length queries)))"
  by (cases queries) (simp_all add: ThreadPoolExecutor_def)

lemma dispatch_state:
  assumes "\<And>query s. snd (agent' [\<lparr>role = ''user'', content = query\<rparr>] s) =
                        snd (agent [\<lparr>role = ''user'', content = query\<rparr>] s)"
  shows "snd (dispatch agent' item s) = snd (dispatch agent item s)"
  using assms process_query_state[of agent'] process_query_state[of agent]
  by (auto simp: dispatch_def split: sum.splits prod.splits) (metis snd_conv)

text \<open>
  The future of a task holds what the task returns in the state that the tasks running
  before it have left, and that state depends only on how the tasks move the service.
\<close>

lemma run_tasks_at:
  assumes "j < length items" and "length futures = length items" and "futures ! j = None"
    and "j \<in> set order"
  shows "fst (run_tasks fn items order futures s) ! j =
           Some (fst (fn (items ! j)
             (snd (run_tasks fn items (takeWhile (\<lambda>i. i \<noteq> j) order) futures s))))"
  using assms(2-)
proof (induction order arbitrary: futures s)
  case Nil
  then show ?case by simp
next
  case (Cons i order)
  show ?case
  proof (cases "i = j")
    case True
    obtain outcome s' where f: "fn (items ! j) s = (outcome, s')" by (cases "fn (items ! j) s")
    have "(futures[j := Some outcome]) ! j = Some outcome"
      using assms(1) Cons.prems by simp
    from run_tasks_keeps[OF this, of fn items order s']
    show ?thesis using True f assms(1) Cons.prems by simp
  next
    case False
    then have mem: "j \<in> set order" using Cons.prems by simp
    show ?thesis
    proof (cases "i < length items \<and> futures ! i = None")
      case True
      obtain outcome s' where f: "fn (items ! i) s = (outcome, s')" by (cases "fn (items ! i) s")
      have "fst (run_tasks fn items order (futures[i := Some outcome]) s') ! j =
          Some (fst (fn (items ! j)
            (snd (run_tasks fn items (takeWhile (\<lambda>i. i \<noteq> j) order) (futures[i := Some outcome]) s'))))"
        using Cons.prems False mem by (intro Cons.IH) simp_all
      moreover have "run_tasks fn items (i # order) futures s =
          run_tasks fn items order (futures[i := Some outcome]) s'"
        using True f by simp
      moreover have "run_tasks fn items (takeWhile (\<lambda>i. i \<noteq> j) (i # order)) futures s =
          run_tasks fn items (takeWhile (\<lambda>i. i \<noteq> j) order) (futures[i := Some outcome]) s'"
        using True f False by simp
      ultimately show ?thesis by simp
    next
      case skip: False
      have "fst (run_tasks fn items order futures s) ! j =
          Some (fst (fn (items ! j)
            (snd (run_tasks fn items (takeWhile (\<lambda>i. i \<noteq> j) order) futures s))))"
        using Cons.prems mem by (intro Cons.IH) simp_all
      moreover have "run_tasks fn items (i # order) futures s = run_tasks fn items order futures s"
        by (simp only: run_tasks.simps skip if_False)
      moreover have "run_tasks fn items (takeWhile (\<lambda>i. i \<noteq> j) (i # order)) futures s =
          run_tasks fn items (takeWhile (\<lambda>i. i \<noteq> j) order) futures s"
      proof -
        have "takeWhile (\<lambda>i. i \<noteq> j) (i # order) = i # takeWhile (\<lambda>i. i \<noteq> j) order"
          using False by simp
        moreover have "run_tasks fn items (i # takeWhile (\<lambda>i. i \<noteq> j) order) futures s =
            run_tasks fn items (takeWhile (\<lambda>i. i \<noteq> j) order) futures s"
          by (simp only: run_tasks.simps skip if_False)
        ultimately show ?thesis by simp
      qed
      ultimately show ?thesis by simp
    qed
  qed
qed

lemma executor_map_at:
  fixes fn :: "'a \<Rightarrow> 's \<Rightarrow> 'b \<times> 's"
  assumes "j < length items"
  shows "fst (run_tasks fn items (completion @ [0..<length items])
                (replicate (length items) (None :: 'b option)) s) ! j =
           Some (fst (fn (items ! j) (state_before fn items completion j s)))"
  unfolding state_before_def
  using assms by (intro run_tasks_at) simp_all

lemma state_before_same:
  fixes fn fn' :: "'a \<Rightarrow> 's \<Rightarrow> 'b \<times> 's"
  assumes "\<And>item t. snd (fn' item t) = snd (fn item t)"
  shows "state_before fn' items completion j s = state_before fn items completion j s"
  unfolding state_before_def
  using run_tasks_agree[where fn' = fn' and fn = fn and items = items and P = "\<lambda>_. False"
      and futures = "replicate (length items) (None :: 'b option)"
      and futures' = "replicate (length items) (None :: 'b option)"
      and completion = "takeWhile (\<lambda>i. i \<noteq> j) (completion @ [0..<length items])" and s = s]
    assms
  by simp

lemma process_query_raises:
  "fst (agent [\<lparr>role = ''user'', content = query\<rparr>] s) = Inl e \<Longrightarrow>
   fst (process_query agent query_id query s) = (query_id, query, ''Error: '' @ repr e)"
  by (cases "agent [\<lparr>role = ''user'', content = query\<rparr>] s") (simp add: process_query_def)

lemma dispatch_result:
  "item ''id'' = Some query_id \<Longrightarrow> item ''query'' = Some query \<Longrightarrow>
   fst (dispatch agent item s) = Inr (fst (process_query agent query_id query s))"
  by (simp add: dispatch_def getitem_def split: prod.splits)

text \<open>
  C1. For every sequence of QueryRecords, every positive worker budget and every
  completion order, whatever the agent does in each dispatch, the results have the
  length of the input and the result at index \<open>i\<close> carries the id of the record at index
  \<open>i\<close>. Results are returned for every non-empty sequence; only for the empty one does
  the run end in an exception (see C2).
\<close>

theorem results_aligned:
  assumes "0 < num_workers" and "list_all QueryRecord queries"
  shows "case fst (run_bulk_test_results agent completion queries num_workers s) of
           Some (Inr results) \<Rightarrow>
             length results = length queries \<and>
             (\<forall>i<length queries. (queries ! i) ''id'' = Some (fst (results ! i)))
         | Some (Inl e) \<Rightarrow> queries = []
         | None \<Rightarrow> False"
proof (cases "queries = []")
  case True
  then show ?thesis
    by (simp add: run_bulk_test_results_def ThreadPoolExecutor_def)
next
  case False
  from executor_map_dispatch[OF assms(2), of agent completion s]
  obtain results s' where r: "executor_map (dispatch agent) queries completion s = (Some (Inr results), s')"
    "length results = length queries"
    "\<forall>i<length queries. dispatched agent (queries ! i) (Inr (results ! i))" by blast
  have "\<forall>i<length queries. (queries ! i) ''id'' = Some (fst (results ! i))"
    using r(3) dispatched_id by blast
  then show ?thesis
    using r(1,2) ThreadPoolExecutor_positive[OF assms(1) False]
    by (simp add: run_bulk_test_results_def)
qed

theorem results_aligned_witness:
  "(0::int) < 5 \<and>
   list_all QueryRecord [[''id'' \<mapsto> ''1'', ''query'' \<mapsto> ''soup?''], [''id'' \<mapsto> ''2'', ''query'' \<mapsto> ''stew?'']] \<and>
   (case fst (run_bulk_test_results
         (\<lambda>conv n. if n = 0 then (Inl (AgentFault ''TimeoutError()''), Suc n)
                    else (Inr (conv @ [\<lparr>role = ''assistant'', content = ''Try miso.''\<rparr>]), Suc n))
         [1, 0]
         [[''id'' \<mapsto> ''1'', ''query'' \<mapsto> ''soup?''], [''id'' \<mapsto> ''2'', ''query'' \<mapsto> ''stew?'']]
         5 (0::nat)) of
      Some (Inr results) \<Rightarrow>
        length results = length [[''id'' \<mapsto> ''1'', ''query'' \<mapsto> ''soup?''], [''id'' \<mapsto> ''2'', ''query'' \<mapsto> ''stew?'']] \<and>
        (\<forall>i<length [[''id'' \<mapsto> ''1'', ''query'' \<mapsto> ''soup?''], [''id'' \<mapsto> ''2'', ''query'' \<mapsto> ''stew?'']].
           ([[''id'' \<mapsto> ''1'', ''query'' \<mapsto> ''soup?''], [''id'' \<mapsto> ''2'', ''query'' \<mapsto> ''stew?'']] ! i) ''id'' =
           Some (fst (results ! i)))
    | Some (Inl e) \<Rightarrow>
        [[''id'' \<mapsto> ''1'', ''query'' \<mapsto> ''soup?''], [''id'' \<mapsto> ''2'', ''query'' \<mapsto> ''stew?'']] = ([] :: row list)
    | None \<Rightarrow> False)"
proof -
  have budget: "(0::int) < 5" by simp
  have records: "list_all QueryRecord
      [[''id'' \<mapsto> ''1'', ''query'' \<mapsto> ''soup?''], [''id'' \<mapsto> ''2'', ''query'' \<mapsto> ''stew?'']]"
    by (simp add: QueryRecord_def)
  show ?thesis
    by (intro conjI budget records results_aligned [OF budget records])
qed

text \<open>
  A run of two records in which the second one completes first and fails: the results
  stay in input order.
\<close>

lemma run_bulk_test_results_example:
  "run_bulk_test_results
         (\<lambda>conv n. if n = 0 then (Inl (AgentFault ''TimeoutError()''), Suc n)
                    else (Inr (conv @ [\<lparr>role = ''assistant'', content = ''Try miso.''\<rparr>]), Suc n))
         [1, 0]
         [[''id'' \<mapsto> ''1'', ''query'' \<mapsto> ''soup?''], [''id'' \<mapsto> ''2'', ''query'' \<mapsto> ''stew?'']]
         5 (0::nat) =
   (Some (Inr [(''1'', ''soup?'', ''Try miso.''), (''2'', ''stew?'', ''Error: TimeoutError()'')]), 2)"
  by (simp add: run_bulk_test_results_def ThreadPoolExecutor_def executor_map_def dispatch_def
      getitem_def process_query_def extract_response_def getitem_last_def upt_rec numeral_2_eq_2)

text \<open>
  C2. On an empty sequence of records the effective number of workers is
  \<open>min num_workers 0\<close>, which is never positive, so the constructor of the pool raises
  \<^verbatim>\<open>ValueError\<close>: no result list is returned. No worker is started and the agent is
  not called: the state of the service is unchanged. A run on a file without rows ends
  with this exception and writes no file.
\<close>

theorem empty_batch_raises:
  "min num_workers (int (length ([] :: row list))) \<le> 0 \<and>
   run_bulk_test_results agent completion [] num_workers s =
     (Some (Inl (ValueError ''max_workers must be greater than 0'')), s) \<and>
   run_bulk_test agent completion timestamp [] num_workers s fs =
     (Some (Inl (ValueError ''max_workers must be greater than 0'')), s, fs)"
  by (simp add: run_bulk_test_def read_queries_def run_bulk_test_results_def ThreadPoolExecutor_def)

text \<open>
  C3. A dispatch whose agent call raises returns the result with the response
  \<^verbatim>\<open>Error: \<close> followed by the text of the exception. In a batch, whatever the agent
  does in the dispatches, the run returns its results (nothing is raised to the caller),
  and the result of every record \<open>k\<close> is the one its own dispatch returns in the state
  \<open>s\<^sub>k\<close> in which it runs: the \<^verbatim>\<open>Error: \<close> result when its agent call raises there. The
  other records are not touched by a fault: take any second agent \<open>other\<close> that moves
  the service as \<open>agent\<close> does and otherwise answers as it likes (it may reply where
  \<open>agent\<close> raises). In both runs every record runs in the same state, and a record whose
  own call gets the same answer from both agents has the same result in both runs,
  also when it carries the same query as a record whose call raises.
\<close>

theorem fault_isolated:
  fixes agent other :: "'s agent"
  assumes budget: "0 < num_workers" and records: "list_all QueryRecord queries"
    and nonempty: "queries \<noteq> []"
    and service: "\<And>conv t. snd (other conv t) = snd (agent conv t)"
  shows "(\<forall>query_id query t e t'.
            agent [\<lparr>role = ''user'', content = query\<rparr>] t = (Inl e, t') \<longrightarrow>
            process_query agent query_id query t = ((query_id, query, ''Error: '' @ repr e), t')) \<and>
    (\<exists>results results' s'.
       run_bulk_test_results agent completion queries num_workers s = (Some (Inr results), s') \<and>
       run_bulk_test_results other completion queries num_workers s = (Some (Inr results'), s') \<and>
       length results = length queries \<and> length results' = length queries \<and>
       (\<forall>k<length queries. \<exists>query_id query s\<^sub>k.
          (queries ! k) ''id'' = Some query_id \<and> (queries ! k) ''query'' = Some query \<and>
          s\<^sub>k = state_before (dispatch agent) queries completion k s \<and>
          s\<^sub>k = state_before (dispatch other) queries completion k s \<and>
          results ! k = fst (process_query agent query_id query s\<^sub>k) \<and>
          results' ! k = fst (process_query other query_id query s\<^sub>k) \<and>
          (\<forall>e. fst (agent [\<lparr>role = ''user'', content = query\<rparr>] s\<^sub>k) = Inl e \<longrightarrow>
               results ! k = (query_id, query, ''Error: '' @ repr e)) \<and>
          (other [\<lparr>role = ''user'', content = query\<rparr>] s\<^sub>k =
             agent [\<lparr>role = ''user'', content = query\<rparr>] s\<^sub>k \<longrightarrow>
           results' ! k = results ! k)))"
proof
  show "\<forall>query_id query t e t'.
            agent [\<lparr>role = ''user'', content = query\<rparr>] t = (Inl e, t') \<longrightarrow>
            process_query agent query_id query t = ((query_id, query, ''Error: '' @ repr e), t')"
    by (simp add: process_query_def)
next
  let ?n = "length queries"
  let ?runA = "run_tasks (dispatch agent) queries (completion @ [0..<?n])
                 (replicate ?n (None :: (error + string \<times> string \<times> string) option)) s"
  let ?runO = "run_tasks (dispatch other) queries (completion @ [0..<?n])
                 (replicate ?n (None :: (error + string \<times> string \<times> string) option)) s"
  have moves: "snd (dispatch other item t) = snd (dispatch agent item t)" for item t
    by (rule dispatch_state) (rule service)
  have "snd ?runO = snd ?runA \<and>
      (\<forall>i<?n. False \<longrightarrow> fst ?runO ! i = fst ?runA ! i)"
    by (rule run_tasks_agree[where P = "\<lambda>_. False"]) (simp_all add: moves)
  then have final: "snd ?runO = snd ?runA" by (rule conjunct1)
  from executor_map_dispatch[OF records, of agent completion s]
  obtain results where r:
    "executor_map (dispatch agent) queries completion s = (Some (Inr results), snd ?runA)"
    "length results = ?n" "\<forall>i<?n. fst ?runA ! i = Some (Inr (results ! i)) \<and>
        dispatched agent (queries ! i) (Inr (results ! i))"
    by (elim exE conjE)
  from executor_map_dispatch[OF records, of other completion s]
  obtain results' where r':
    "executor_map (dispatch other) queries completion s = (Some (Inr results'), snd ?runO)"
    "length results' = ?n" "\<forall>i<?n. fst ?runO ! i = Some (Inr (results' ! i)) \<and>
        dispatched other (queries ! i) (Inr (results' ! i))"
    by (elim exE conjE)
  have each: "\<exists>query_id query s\<^sub>k.
          (queries ! k) ''id'' = Some query_id \<and> (queries ! k) ''query'' = Some query \<and>
          s\<^sub>k = state_before (dispatch agent) queries completion k s \<and>
          s\<^sub>k = state_before (dispatch other) queries completion k s \<and>
          results ! k = fst (process_query agent query_id query s\<^sub>k) \<and>
          results' ! k = fst (process_query other query_id query s\<^sub>k) \<and>
          (\<forall>e. fst (agent [\<lparr>role = ''user'', content = query\<rparr>] s\<^sub>k) = Inl e \<longrightarrow>
               results ! k = (query_id, query, ''Error: '' @ repr e)) \<and>
          (other [\<lparr>role = ''user'', content = query\<rparr>] s\<^sub>k =
             agent [\<lparr>role = ''user'', content = query\<rparr>] s\<^sub>k \<longrightarrow>
           results' ! k = results ! k)"
    if k: "k < ?n" for k
  proof -
    let ?s = "state_before (dispatch agent) queries completion k s"
    have "QueryRecord (queries ! k)" using records k by (simp add: list_all_length)
    then obtain query_id query where
      item: "(queries ! k) ''id'' = Some query_id" "(queries ! k) ''query'' = Some query"
      by (auto simp: QueryRecord_def)
    have same: "state_before (dispatch other) queries completion k s = ?s"
      using moves by (rule state_before_same)
    have "fst ?runA ! k = Some (fst (dispatch agent (queries ! k) ?s))"
      using k by (rule executor_map_at)
    moreover have "fst ?runA ! k = Some (Inr (results ! k))" using r(3) k by simp
    moreover have "fst (dispatch agent (queries ! k) ?s) =
        Inr (fst (process_query agent query_id query ?s))"
      using item by (rule dispatch_result)
    ultimately have res: "results ! k = fst (process_query agent query_id query ?s)" by simp
    have "fst ?runO ! k = Some (fst (dispatch other (queries ! k)
        (state_before (dispatch other) queries completion k s)))"
      using k by (rule executor_map_at)
    then have "fst ?runO ! k = Some (fst (dispatch other (queries ! k) ?s))"
      by (simp only: same)
    moreover have "fst ?runO ! k = Some (Inr (results' ! k))" using r'(3) k by simp
    moreover have "fst (dispatch other (queries ! k) ?s) =
        Inr (fst (process_query other query_id query ?s))"
      using item by (rule dispatch_result)
    ultimately have res': "results' ! k = fst (process_query other query_id query ?s)" by simp
    have err: "\<forall>e. fst (agent [\<lparr>role = ''user'', content = query\<rparr>] ?s) = Inl e \<longrightarrow>
        results ! k = (query_id, query, ''Error: '' @ repr e)"
    proof (intro allI impI)
      fix e assume "fst (agent [\<lparr>role = ''user'', content = query\<rparr>] ?s) = Inl e"
      then have "fst (process_query agent query_id query ?s) =
          (query_id, query, ''Error: '' @ repr e)"
        by (rule process_query_raises)
      then show "results ! k = (query_id, query, ''Error: '' @ repr e)"
        by (simp only: res)
    qed
    have eq: "other [\<lparr>role = ''user'', content = query\<rparr>] ?s =
        agent [\<lparr>role = ''user'', content = query\<rparr>] ?s \<longrightarrow> results' ! k = results ! k"
    proof (rule impI)
      assume "other [\<lparr>role = ''user'', content = query\<rparr>] ?s =
        agent [\<lparr>role = ''user'', content = query\<rparr>] ?s"
      then have "process_query other query_id query ?s = process_query agent query_id query ?s"
        by (rule process_query_cong)
      then show "results' ! k = results ! k" by (simp only: res res')
    qed
    show ?thesis
      by (rule exI[of _ query_id], rule exI[of _ query], rule exI[of _ ?s])
        (intro conjI item refl same[symmetric] res res' err eq)
  qed
  have pool: "ThreadPoolExecutor (min num_workers (int ?n)) = Inr (min num_workers (int ?n))"
    using budget nonempty by (rule ThreadPoolExecutor_positive)
  have runA: "run_bulk_test_results agent completion queries num_workers s =
      (Some (Inr results), snd ?runA)"
    using r(1) pool by (simp add: run_bulk_test_results_def)
  have runO: "run_bulk_test_results other completion queries num_workers s =
      (Some (Inr results'), snd ?runA)"
    using r'(1) final pool by (simp add: run_bulk_test_results_def)
  show "\<exists>results results' s'.
       run_bulk_test_results agent completion queries num_workers s = (Some (Inr results), s') \<and>
       run_bulk_test_results other completion queries num_workers s = (Some (Inr results'), s') \<and>
       length results = length queries \<and> length results' = length queries \<and>
       (\<forall>k<length queries. \<exists>query_id query s\<^sub>k.
          (queries ! k) ''id'' = Some query_id \<and> (queries ! k) ''query'' = Some query \<and>
          s\<^sub>k = state_before (dispatch agent) queries completion k s \<and>
          s\<^sub>k = state_before (dispatch other) queries completion k s \<and>
          results ! k = fst (process_query agent query_id query s\<^sub>k) \<and>
          results' ! k = fst (process_query other query_id query s\<^sub>k) \<and>
          (\<forall>e. fst (agent [\<lparr>role = ''user'', content = query\<rparr>] s\<^sub>k) = Inl e \<longrightarrow>
               results ! k = (query_id, query, ''Error: '' @ repr e)) \<and>
          (other [\<lparr>role = ''user'', content = query\<rparr>] s\<^sub>k =
             agent [\<lparr>role = ''user'', content = query\<rparr>] s\<^sub>k \<longrightarrow>
           results' ! k = results ! k))"
    by (rule exI[of _ results], rule exI[of _ results'], rule exI[of _ "snd ?runA"])
      (intro conjI allI impI runA runO r(2) r'(2) each; assumption)
qed

theorem fault_isolated_witness:
  "(0::int) < 5 \<and>
   list_all QueryRecord [[''id'' \<mapsto> ''1'', ''query'' \<mapsto> ''stew?''], [''id'' \<mapsto> ''2'', ''query'' \<mapsto> ''stew?'']] \<and>
   [[''id'' \<mapsto> ''1'', ''query'' \<mapsto> ''stew?''], [''id'' \<mapsto> ''2'', ''query'' \<mapsto> ''stew?'']] \<noteq> [] \<and>
   (\<forall>conv t. snd (((\<lambda>conv n. (Inr (conv @ [\<lparr>role = ''assistant'', content = ''Try miso.''\<rparr>]), Suc n)) :: nat agent) conv t) =
      snd ((\<lambda>conv n. if n = 0 then (Inl (AgentFault ''TimeoutError()''), Suc n)
        else (Inr (conv @ [\<lparr>role = ''assistant'', content = ''Try miso.''\<rparr>]), Suc n)) conv t)) \<and>
   process_query (\<lambda>conv n. if n = 0 then (Inl (AgentFault ''TimeoutError()''), Suc n)
        else (Inr (conv @ [\<lparr>role = ''assistant'', content = ''Try miso.''\<rparr>]), Suc n))
     ''2'' ''stew?'' (0::nat) = ((''2'', ''stew?'', ''Error: TimeoutError()''), 1) \<and>
   run_bulk_test_results (\<lambda>conv n. if n = 0 then (Inl (AgentFault ''TimeoutError()''), Suc n)
        else (Inr (conv @ [\<lparr>role = ''assistant'', content = ''Try miso.''\<rparr>]), Suc n))
     [1, 0] [[''id'' \<mapsto> ''1'', ''query'' \<mapsto> ''stew?''], [''id'' \<mapsto> ''2'', ''query'' \<mapsto> ''stew?'']] 5 (0::nat) =
     (Some (Inr [(''1'', ''stew?'', ''Try miso.''), (''2'', ''stew?'', ''Error: TimeoutError()'')]), 2) \<and>
   run_bulk_test_results (\<lambda>conv n. (Inr (conv @ [\<lparr>role = ''assistant'', content = ''Try miso.''\<rparr>]), Suc n))
     [1, 0] [[''id'' \<mapsto> ''1'', ''query'' \<mapsto> ''stew?''], [''id'' \<mapsto> ''2'', ''query'' \<mapsto> ''stew?'']] 5 (0::nat) =
     (Some (Inr [(''1'', ''stew?'', ''Try miso.''), (''2'', ''stew?'', ''Try miso.'')]), 2) \<and>
   state_before (dispatch (\<lambda>conv n. if n = 0 then (Inl (AgentFault ''TimeoutError()''), Suc n)
        else (Inr (conv @ [\<lparr>role = ''assistant'', content = ''Try miso.''\<rparr>]), Suc n)))
     [[''id'' \<mapsto> ''1'', ''query'' \<mapsto> ''stew?''], [''id'' \<mapsto> ''2'', ''query'' \<mapsto> ''stew?'']] [1, 0] 1 (0::nat) = 0 \<and>
   state_before (dispatch (\<lambda>conv n. if n = 0 then (Inl (AgentFault ''TimeoutError()''), Suc n)
        else (Inr (conv @ [\<lparr>role = ''assistant'', content = ''Try miso.''\<rparr>]), Suc n)))
     [[''id'' \<mapsto> ''1'', ''query'' \<mapsto> ''stew?''], [''id'' \<mapsto> ''2'', ''query'' \<mapsto> ''stew?'']] [1, 0] 0 (0::nat) = 1 \<and>
   (\<exists>results results' s'.
       run_bulk_test_results (\<lambda>conv n. if n = 0 then (Inl (AgentFault ''TimeoutError()''), Suc n)
        else (Inr (conv @ [\<lparr>role = ''assistant'', content = ''Try miso.''\<rparr>]), Suc n))
         [1, 0] [[''id'' \<mapsto> ''1'', ''query'' \<mapsto> ''stew?''], [''id'' \<mapsto> ''2'', ''query'' \<mapsto> ''stew?'']] 5 (0::nat) = (Some (Inr results), s') \<and>
       run_bulk_test_results (\<lambda>conv n. (Inr (conv @ [\<lparr>role = ''assistant'', content = ''Try miso.''\<rparr>]), Suc n))
         [1, 0] [[''id'' \<mapsto> ''1'', ''query'' \<mapsto> ''stew?''], [''id'' \<mapsto> ''2'', ''query'' \<mapsto> ''stew?'']] 5 (0::nat) = (Some (Inr results'), s') \<and>
       length results = length [[''id'' \<mapsto> ''1'', ''query'' \<mapsto> ''stew?''], [''id'' \<mapsto> ''2'', ''query'' \<mapsto> ''stew?'']] \<and>
       length results' = length [[''id'' \<mapsto> ''1'', ''query'' \<mapsto> ''stew?''], [''id'' \<mapsto> ''2'', ''query'' \<mapsto> ''stew?'']] \<and>
       (\<forall>k<length [[''id'' \<mapsto> ''1'', ''query'' \<mapsto> ''stew?''], [''id'' \<mapsto> ''2'', ''query'' \<mapsto> ''stew?'']]. \<exists>query_id query s\<^sub>k.
          ([[''id'' \<mapsto> ''1'', ''query'' \<mapsto> ''stew?''], [''id'' \<mapsto> ''2'', ''query'' \<mapsto> ''stew?'']] ! k) ''id'' = Some query_id \<and>
          ([[''id'' \<mapsto> ''1'', ''query'' \<mapsto> ''stew?''], [''id'' \<mapsto> ''2'', ''query'' \<mapsto> ''stew?'']] ! k) ''query'' = Some query \<and>
          s\<^sub>k = state_before (dispatch (\<lambda>conv n. if n = 0 then (Inl (AgentFault ''TimeoutError()''), Suc n)
        else (Inr (conv @ [\<lparr>role = ''assistant'', content = ''Try miso.''\<rparr>]), Suc n)))
                 [[''id'' \<mapsto> ''1'', ''query'' \<mapsto> ''stew?''], [''id'' \<mapsto> ''2'', ''query'' \<mapsto> ''stew?'']] [1, 0] k 0 \<and>
          s\<^sub>k = state_before (dispatch (\<lambda>conv n. (Inr (conv @ [\<lparr>role = ''assistant'', content = ''Try miso.''\<rparr>]), Suc n)))
                 [[''id'' \<mapsto> ''1'', ''query'' \<mapsto> ''stew?''], [''id'' \<mapsto> ''2'', ''query'' \<mapsto> ''stew?'']] [1, 0] k 0 \<and>
          results ! k = fst (process_query (\<lambda>conv n. if n = 0 then (Inl (AgentFault ''TimeoutError()''), Suc n)
        else (Inr (conv @ [\<lparr>role = ''assistant'', content = ''Try miso.''\<rparr>]), Suc n))
                              query_id query s\<^sub>k) \<and>
          results' ! k = fst (process_query (\<lambda>conv n. (Inr (conv @ [\<lparr>role = ''assistant'', content = ''Try miso.''\<rparr>]), Suc n))
                               query_id query s\<^sub>k) \<and>
          (\<forall>e. fst ((\<lambda>conv n. if n = 0 then (Inl (AgentFault ''TimeoutError()''), Suc n)
        else (Inr (conv @ [\<lparr>role = ''assistant'', content = ''Try miso.''\<rparr>]), Suc n))
                     [\<lparr>role = ''user'', content = query\<rparr>] s\<^sub>k) = Inl e \<longrightarrow>
               results ! k = (query_id, query, ''Error: '' @ repr e)) \<and>
          ((\<lambda>conv n. (Inr (conv @ [\<lparr>role = ''assistant'', content = ''Try miso.''\<rparr>]), Suc n)) [\<lparr>role = ''user'', content = query\<rparr>] s\<^sub>k =
             (\<lambda>conv n. if n = 0 then (Inl (AgentFault ''TimeoutError()''), Suc n)
        else (Inr (conv @ [\<lparr>role = ''assistant'', content = ''Try miso.''\<rparr>]), Suc n)) [\<lparr>role = ''user'', content = query\<rparr>] s\<^sub>k \<longrightarrow>
           results' ! k = results ! k)))"
proof -
  let ?agent = "(\<lambda>conv n. if n = 0 then (Inl (AgentFault ''TimeoutError()''), Suc n)
        else (Inr (conv @ [\<lparr>role = ''assistant'', content = ''Try miso.''\<rparr>]), Suc n)) :: nat agent"
  let ?other = "(\<lambda>conv n. (Inr (conv @ [\<lparr>role = ''assistant'', content = ''Try miso.''\<rparr>]), Suc n)) :: nat agent"
  let ?queries = "[[''id'' \<mapsto> ''1'', ''query'' \<mapsto> ''stew?''], [''id'' \<mapsto> ''2'', ''query'' \<mapsto> ''stew?'']]"
  have budget: "(0::int) < 5" by simp
  have records: "list_all QueryRecord ?queries" by (simp add: QueryRecord_def)
  have nonempty: "?queries \<noteq> []" by simp
  have service: "\<forall>conv t. snd (?other conv t) = snd (?agent conv t)" by simp
  have raises: "?agent [\<lparr>role = ''user'', content = ''stew?''\<rparr>] 0 =
      (Inl (AgentFault ''TimeoutError()''), 1)"
    by simp
  have run_agent: "run_bulk_test_results ?agent [1, 0] ?queries 5 0 =
      (Some (Inr [(''1'', ''stew?'', ''Try miso.''), (''2'', ''stew?'', ''Error: TimeoutError()'')]), 2)"
    by (simp add: run_bulk_test_results_def ThreadPoolExecutor_def executor_map_def dispatch_def
        getitem_def process_query_def extract_response_def getitem_last_def upt_rec numeral_2_eq_2)
  have run_other: "run_bulk_test_results ?other [1, 0] ?queries 5 0 =
      (Some (Inr [(''1'', ''stew?'', ''Try miso.''), (''2'', ''stew?'', ''Try miso.'')]), 2)"
    by (simp add: run_bulk_test_results_def ThreadPoolExecutor_def executor_map_def dispatch_def
        getitem_def process_query_def extract_response_def getitem_last_def upt_rec numeral_2_eq_2)
  have before_1: "state_before (dispatch ?agent) ?queries [1, 0] 1 0 = 0"
    by (simp add: state_before_def)
  have before_0: "state_before (dispatch ?agent) ?queries [1, 0] 0 0 = 1"
    by (simp add: state_before_def dispatch_def getitem_def process_query_def)
  note isolated = fault_isolated [of 5 ?queries ?other ?agent "[1, 0]" 0,
      OF budget records nonempty service[rule_format]]
  have dispatch_raises: "process_query ?agent ''2'' ''stew?'' 0 =
      ((''2'', ''stew?'', ''Error: TimeoutError()''), 1)"
    using isolated[THEN conjunct1, rule_format, OF raises, of "''2''"] by simp
  show ?thesis
    by (intro conjI budget records nonempty service dispatch_raises run_agent run_other
        before_1 before_0 isolated[THEN conjunct2])
qed

subsection \<open>The JSON file\<close>

lemma hex_value_digit: "hex_value (hex_digit n) = Some (n mod 16)"
proof (cases "n mod 16 < 10")
  case True
  then show ?thesis by (simp add: hex_digit_def hex_value_def)
next
  case False
  moreover have "n mod 16 < 16" by simp
  ultimately show ?thesis by (simp add: hex_digit_def hex_value_def Let_def)
qed

lemma decode_hex4: "n < 256 \<Longrightarrow> decode_uXXXX (hex4 n) = Some n"
proof -
  assume n: "n < 256"
  then have a: "n div 4096 = 0" "n div 256 = 0" by simp_all
  have "n div 16 < 16" using n by simp
  then have b: "n div 16 mod 16 = n div 16" by simp
  have c: "n div 16 * 16 + n mod 16 = n" by simp
  show ?thesis
    by (simp add: decode_uXXXX_def hex4_def hex_value_digit a b c)
qed

lemma hex4_length: "length (hex4 n) = 4"
  by (simp add: hex4_def)

lemma escape_cases:
  obtains (plain) "escape c = [c]" "c \<noteq> CHR 0x22" "c \<noteq> CHR 0x5C" "\<not> (of_char c :: nat) < 0x20"
    | (short) e where "escape c = [CHR 0x5C, e]" "e \<noteq> CHR ''u''" "backslash e = Some c"
    | (long) "escape c = CHR 0x5C # CHR ''u'' # hex4 (of_char c)" "(of_char c :: nat) < 0x20"
proof -
  have s: "escape c = [CHR 0x5C, e] \<Longrightarrow> e \<noteq> CHR ''u'' \<Longrightarrow> backslash e = Some c \<Longrightarrow> thesis" for e
    using short by blast
  show thesis
  proof (cases "c \<in> {CHR 0x22, CHR 0x5C, CHR 0x0A, CHR 0x0D, CHR 0x09, CHR 0x08, CHR 0x0C}")
    case True
    then consider "c = CHR 0x22" | "c = CHR 0x5C" | "c = CHR 0x0A" | "c = CHR 0x0D" | "c = CHR 0x09"
      | "c = CHR 0x08" | "c = CHR 0x0C" by blast
    then show ?thesis
    proof cases
      case 1 then show ?thesis by (intro s[of "CHR 0x22"]) (simp_all add: escape_def backslash_def)
    next
      case 2 then show ?thesis by (intro s[of "CHR 0x5C"]) (simp_all add: escape_def backslash_def)
    next
      case 3 then show ?thesis by (intro s[of "CHR ''n''"]) (simp_all add: escape_def backslash_def)
    next
      case 4 then show ?thesis by (intro s[of "CHR ''r''"]) (simp_all add: escape_def backslash_def)
    next
      case 5 then show ?thesis by (intro s[of "CHR ''t''"]) (simp_all add: escape_def backslash_def)
    next
      case 6 then show ?thesis by (intro s[of "CHR ''b''"]) (simp_all add: escape_def backslash_def)
    next
      case 7 then show ?thesis by (intro s[of "CHR ''f''"]) (simp_all add: escape_def backslash_def)
    qed
  next
    case False
    show ?thesis
    proof (cases "(of_char c :: nat) < 0x20")
      case True
      with False show ?thesis by (intro long) (simp_all add: escape_def)
    next
      case c: False
      with False show ?thesis by (intro plain) (simp_all add: escape_def)
    qed
  qed
qed

lemma scanstring_escape:
  "scanstring (concat (map escape s) @ CHR 0x22 # rest) = Some (s, rest)"
proof (induction s)
  case Nil
  then show ?case by simp
next
  case (Cons c s)
  let ?tail = "concat (map escape s) @ CHR 0x22 # rest"
  show ?case
  proof (cases c rule: escape_cases)
    case plain
    then show ?thesis using Cons.IH by simp
  next
    case (short e)
    then show ?thesis using Cons.IH by simp
  next
    case long
    have "decode_uXXXX (hex4 (of_char c)) = Some (of_char c)"
      using long(2) by (intro decode_hex4) simp
    moreover have "utf8 (of_char c) = Some [c]"
      using long(2) by (simp add: utf8_def)
    ultimately show ?thesis using long Cons.IH by (simp add: hex4_length)
  qed
qed

lemma skip_ws_Cons: "skip_ws (c # cs) = (if whitespace c then skip_ws cs else c # cs)"
  by (simp add: skip_ws_def)

lemma skip_ws_Nil: "skip_ws [] = []"
  by (simp add: skip_ws_def)

lemma skip_ws_newline_indent: "skip_ws (newline_indent l @ cs) = skip_ws cs"
proof -
  have "\<And>x. x \<in> set (newline_indent l) \<Longrightarrow> whitespace x"
    by (auto simp: newline_indent_def whitespace_def)
  then show ?thesis
    unfolding skip_ws_def by (rule dropWhile_append2)
qed

lemma encode_basestring_Cons: "encode_basestring s = CHR 0x22 # concat (map escape s) @ [CHR 0x22]"
  by (simp add: encode_basestring_def)

lemma scan_item_encoded:
  "scan_item (concat (map escape key) @ [CHR 0x22] @ '': '' @ encode_basestring v @ rest) =
     Some ((key, v), rest)"
proof -
  have 1: "scanstring (concat (map escape key) @ [CHR 0x22] @ '': '' @ encode_basestring v @ rest) =
      Some (key, '': '' @ encode_basestring v @ rest)"
    using scanstring_escape[of key "'': '' @ encode_basestring v @ rest"] by simp
  have 2: "expect CHR '':'' (skip_ws ('': '' @ encode_basestring v @ rest)) =
      Some ('' '' @ encode_basestring v @ rest)"
    by (simp add: skip_ws_Cons whitespace_def expect_def)
  have 3: "expect CHR 0x22 (skip_ws ('' '' @ encode_basestring v @ rest)) =
      Some (concat (map escape v) @ CHR 0x22 # rest)"
    by (simp add: skip_ws_Cons whitespace_def expect_def encode_basestring_Cons)
  show ?thesis
    using 1 2 3 by (simp add: scan_item_def scanstring_escape)
qed

lemma join_Cons: "xs \<noteq> [] \<Longrightarrow> join sep (x # xs) = x @ sep @ join sep xs"
  by (cases xs) simp_all

lemma join_starts:
  assumes "xs \<noteq> []" and "\<And>x. x \<in> set xs \<Longrightarrow> f x = c # g x"
  shows "join sep (map f xs) = c # tl (join sep (map f xs))"
proof (cases xs)
  case Nil
  with assms show ?thesis by simp
next
  case (Cons x ys)
  then have "f x = c # g x" using assms(2) by simp
  then show ?thesis using Cons by (cases ys) simp_all
qed

lemma scan_items_join:
  fixes dct :: "(string \<times> string) list"
  defines "enc \<equiv> \<lambda>(key, v). encode_basestring key @ '': '' @ encode_basestring v"
  assumes "dct \<noteq> []"
  shows "scan_items (tl (join ('','' @ newline_indent l) (map enc dct)) @ newline_indent l' @ CHR ''}'' # rest) =
           Some (dct, rest)"
  using assms(2)
proof (induction dct rule: list_nonempty_induct)
  case (single kv)
  obtain key v where kv: "kv = (key, v)" by (cases kv)
  have "scan_item (tl (enc kv) @ newline_indent l' @ CHR ''}'' # rest) =
      Some (kv, newline_indent l' @ CHR ''}'' # rest)"
    using scan_item_encoded[of key v "newline_indent l' @ CHR ''}'' # rest"]
    by (simp add: kv enc_def encode_basestring_Cons)
  then show ?case
    by (subst scan_items.simps) (simp add: skip_ws_newline_indent skip_ws_Cons whitespace_def)
next
  case (cons kv dct)
  obtain key v where kv: "kv = (key, v)" by (cases kv)
  let ?sep = "'','' @ newline_indent l"
  let ?more = "join ?sep (map enc dct)"
  let ?end = "newline_indent l' @ CHR ''}'' # rest"
  have starts: "?more = CHR 0x22 # tl ?more"
    using cons.hyps
    by (rule join_starts[where g = "\<lambda>(key, v). concat (map escape key) @ [CHR 0x22] @ '': '' @ encode_basestring v"])
      (auto simp: enc_def encode_basestring_Cons)
  have whole: "tl (join ?sep (map enc (kv # dct))) @ ?end = tl (enc kv) @ ?sep @ ?more @ ?end"
    using cons.hyps by (simp add: join_Cons kv enc_def encode_basestring_Cons)
  have item: "scan_item (tl (enc kv) @ ?sep @ ?more @ ?end) = Some (kv, ?sep @ ?more @ ?end)"
    using scan_item_encoded[of key v "?sep @ ?more @ ?end"]
    by (simp add: kv enc_def encode_basestring_Cons)
  obtain m where m: "?more = CHR 0x22 # m" using starts by blast
  have next_key: "expect CHR 0x22 (skip_ws (newline_indent l @ ?more @ ?end)) = Some (tl ?more @ ?end)"
    unfolding m by (simp add: skip_ws_newline_indent skip_ws_Cons whitespace_def expect_def)
  have "scan_items (tl (enc kv) @ ?sep @ ?more @ ?end) = Some (kv # dct, rest)"
    apply (subst scan_items.simps)
    using item next_key cons.IH apply (simp add: skip_ws_Cons whitespace_def)
    done
  then show ?case unfolding whole .
qed

lemma JSONObject_iterencode_dict:
  "\<exists>body. iterencode_dict l dct = CHR ''{'' # body \<and> JSONObject (body @ rest) = Some (dct, rest)"
proof (cases "dct = []")
  case True
  then show ?thesis
    by (simp add: iterencode_dict_def JSONObject_def skip_ws_Cons whitespace_def)
next
  case False
  let ?enc = "\<lambda>(key, v). encode_basestring key @ '': '' @ encode_basestring v"
  let ?items = "join ('','' @ newline_indent (l + 1)) (map ?enc dct)"
  let ?body = "newline_indent (l + 1) @ ?items @ newline_indent l @ ''}''"
  have "?items = CHR 0x22 # tl ?items"
    using False
    by (rule join_starts[where g = "\<lambda>(key, v). concat (map escape key) @ [CHR 0x22] @ '': '' @ encode_basestring v"])
      (auto simp: encode_basestring_Cons)
  then obtain m where m: "?items = CHR 0x22 # m" by blast
  have "scan_items (tl ?items @ newline_indent l @ CHR ''}'' # rest) = Some (dct, rest)"
    using False by (rule scan_items_join)
  then have "JSONObject (?body @ rest) = Some (dct, rest)"
    unfolding JSONObject_def m
    by (simp add: skip_ws_newline_indent skip_ws_Cons whitespace_def)
  moreover have "iterencode_dict l dct = CHR ''{'' # ?body"
    using False by (simp add: iterencode_dict_def)
  ultimately show ?thesis by blast
qed

lemma iterencode_dict_starts: "iterencode_dict l d = CHR ''{'' # tl (iterencode_dict l d)"
  by (simp add: iterencode_dict_def)

lemma scan_values_join:
  assumes "lst \<noteq> []"
  shows "scan_values (join ('','' @ newline_indent l) (map (iterencode_dict l) lst) @
                      newline_indent l' @ CHR '']'' # rest) = Some (lst, rest)"
  using assms
proof (induction lst rule: list_nonempty_induct)
  case (single d)
  let ?end = "newline_indent l' @ CHR '']'' # rest"
  from JSONObject_iterencode_dict[of l d ?end]
  obtain body where b: "iterencode_dict l d = CHR ''{'' # body" "JSONObject (body @ ?end) = Some (d, ?end)"
    by blast
  show ?case
    apply (subst scan_values.simps)
    using b apply (simp add: expect_def skip_ws_newline_indent skip_ws_Cons whitespace_def)
    done
next
  case (cons d lst)
  let ?sep = "'','' @ newline_indent l"
  let ?more = "join ?sep (map (iterencode_dict l) lst)"
  let ?end = "newline_indent l' @ CHR '']'' # rest"
  from JSONObject_iterencode_dict[of l d "?sep @ ?more @ ?end"]
  obtain body where b: "iterencode_dict l d = CHR ''{'' # body"
    "JSONObject (body @ ?sep @ ?more @ ?end) = Some (d, ?sep @ ?more @ ?end)"
    by blast
  have "\<And>x. x \<in> set lst \<Longrightarrow> iterencode_dict l x = CHR ''{'' # tl (iterencode_dict l x)"
    by (rule iterencode_dict_starts)
  with cons.hyps have "?more = CHR ''{'' # tl ?more" by (rule join_starts)
  then obtain m where m: "?more = CHR ''{'' # m" by blast
  have ws: "skip_ws (newline_indent l @ ?more @ ?end) = ?more @ ?end"
    unfolding m by (simp add: skip_ws_newline_indent skip_ws_Cons whitespace_def)
  have whole: "join ?sep (map (iterencode_dict l) (d # lst)) @ ?end =
      iterencode_dict l d @ ?sep @ ?more @ ?end"
    using cons.hyps by (simp add: join_Cons)
  have "scan_values (iterencode_dict l d @ ?sep @ ?more @ ?end) = Some (d # lst, rest)"
    apply (subst scan_values.simps)
    using b ws cons.IH apply (simp add: expect_def skip_ws_Cons whitespace_def)
    done
  then show ?case unfolding whole .
qed

lemma json_load_json_dump: "json_load (json_dump obj) = Some obj"
proof (cases "obj = []")
  case True
  then show ?thesis
    by (simp add: json_dump_def iterencode_list_def json_load_def JSONArray_def expect_def
        skip_ws_Cons skip_ws_Nil whitespace_def)
next
  case False
  let ?encoded = "join ('','' @ newline_indent 1) (map (iterencode_dict 1) obj)"
  have "\<And>x. x \<in> set obj \<Longrightarrow> iterencode_dict 1 x = CHR ''{'' # tl (iterencode_dict 1 x)"
    by (rule iterencode_dict_starts)
  with False have "?encoded = CHR ''{'' # tl ?encoded" by (rule join_starts)
  then obtain m where m: "?encoded = CHR ''{'' # m" by blast
  have "scan_values (?encoded @ newline_indent 0 @ CHR '']'' # []) = Some (obj, [])"
    using False by (rule scan_values_join)
  then have "JSONArray (newline_indent 1 @ ?encoded @ newline_indent 0 @ '']'') = Some (obj, [])"
    unfolding JSONArray_def m
    by (simp add: skip_ws_newline_indent skip_ws_Cons whitespace_def)
  then show ?thesis
    using False
    by (simp add: json_dump_def iterencode_list_def json_load_def expect_def skip_ws_Cons
        skip_ws_Nil whitespace_def)
qed

lemma triple_of_items:
  "triple_of [(''id'', i), (''query'', q), (''response'', r)] = Some (i, q, r)"
  by (simp add: triple_of_def)

lemma read_triples_json_dump:
  "read_triples (json_dump (map (\<lambda>result. [(''id'', fst result), (''query'', fst (snd result)),
                                       (''response'', snd (snd result))]) results)) = Some results"
proof -
  have "those (map triple_of (map (\<lambda>result. [(''id'', fst result), (''query'', fst (snd result)),
                                       (''response'', snd (snd result))]) results)) = Some results"
    by (induction results) (simp_all add: triple_of_items)
  then show ?thesis
    by (simp add: read_triples_def json_load_json_dump)
qed

subsection \<open>The files that are written\<close>

lemma rfind_dot_csv: "rfind (x @ ''.csv'') CHR ''.'' = int (length x)"
  by (simp add: rfind_def)

lemma path_suffix_csv:
  assumes "x \<noteq> []"
  shows "path_suffix (p\<lparr>name := x @ ''.csv''\<rparr>) = ''.csv''"
  using assms by (simp add: path_suffix_def rfind_dot_csv)


lemma stem_nonempty:
  assumes "name p \<noteq> []"
  shows "stem p \<noteq> []"
proof (cases "path_suffix p = []")
  case True
  with assms show ?thesis by (simp add: stem_def)
next
  case False
  then have i: "0 < rfind (name p) CHR ''.''" "rfind (name p) CHR ''.'' < int (length (name p)) - 1"
    and s: "path_suffix p = drop (nat (rfind (name p) CHR ''.'')) (name p)"
    by (auto simp: path_suffix_def Let_def split: if_splits)
  then show ?thesis by (auto simp: stem_def)
qed

lemma with_suffix_csv:
  assumes "name p \<noteq> []"
  shows "with_suffix p ''.csv'' = Inr (p\<lparr>name := stem p @ ''.csv''\<rparr>)"
  using assms by (simp add: with_suffix_def stem_def Let_def)

lemma foldl_append_rows:
  "foldl (\<lambda>text result. text @ f result) header results = header @ concat (map f results)"
  by (induction results arbitrary: header) simp_all

lemma header_row: "writerow [''id'', ''query'', ''response''] = ''id,query,response'' @ [CHR 0x0D, CHR 0x0A]"
  by (simp add: writerow_def csv_field_def)

lemma write_results_files:
  assumes "name output_path \<noteq> []"
  shows "write_results output_path results fs =
      (Inr (), (fs(output_path \<mapsto> json_dump (map (\<lambda>result. [(''id'', fst result),
          (''query'', fst (snd result)), (''response'', snd (snd result))]) results)))
        (output_path\<lparr>name := stem output_path @ ''.csv''\<rparr> \<mapsto>
           ''id,query,response'' @ [CHR 0x0D, CHR 0x0A] @
           concat (map (\<lambda>(query_id, query, response). writerow [query_id, query, response]) results)))"
proof -
  have rows: "(\<lambda>result. writerow [fst result, fst (snd result), snd (snd result)]) =
      (\<lambda>(query_id, query, response). writerow [query_id, query, response])"
    by (simp add: fun_eq_iff)
  show ?thesis
    unfolding write_results_def Let_def with_suffix_csv[OF assms] foldl_append_rows header_row rows
    using assms by simp
qed

lemma csv_path_differs:
  assumes "name output_path \<noteq> []" and "path_suffix output_path \<noteq> ''.csv''"
  shows "output_path\<lparr>name := stem output_path @ ''.csv''\<rparr> \<noteq> output_path"
proof -
  have "stem output_path \<noteq> []" using assms(1) by (rule stem_nonempty)
  then have "path_suffix (output_path\<lparr>name := stem output_path @ ''.csv''\<rparr>) = ''.csv''"
    by (rule path_suffix_csv)
  with assms(2) show ?thesis by auto
qed

text \<open>
  C7. The JSON file that \<^const>\<open>write_results\<close> leaves, read back, gives the triples
  \<open>(id, query, response)\<close> of the results, in order. The output path names a file (its
  name is not empty, or opening it fails and nothing is written) and does not end in
  \<^verbatim>\<open>.csv\<close> (or the CSV file, written afterwards, replaces the JSON file). Both hold for
  every path that \<^const>\<open>run_bulk_test\<close> builds (see \<open>results_path\<close> below).
\<close>

theorem json_round_trip:
  assumes "name output_path \<noteq> []" and "path_suffix output_path \<noteq> ''.csv''"
  shows "fst (write_results output_path results fs) = Inr () \<and>
         (\<exists>content. snd (write_results output_path results fs) output_path = Some content \<and>
            read_triples content = Some results)"
proof -
  have "write_results output_path results fs =
      (Inr (), (fs(output_path \<mapsto> json_dump (map (\<lambda>result. [(''id'', fst result),
          (''query'', fst (snd result)), (''response'', snd (snd result))]) results)))
        (output_path\<lparr>name := stem output_path @ ''.csv''\<rparr> \<mapsto>
           ''id,query,response'' @ [CHR 0x0D, CHR 0x0A] @
           concat (map (\<lambda>(query_id, query, response). writerow [query_id, query, response]) results)))"
    using assms(1) by (rule write_results_files)
  then show ?thesis
    using csv_path_differs[OF assms] by (simp add: read_triples_json_dump)
qed

theorem json_round_trip_witness:
  "name \<lparr>parent = [''results''], name = ''results_20240131_235959.json''\<rparr> \<noteq> [] \<and>
   path_suffix \<lparr>parent = [''results''], name = ''results_20240131_235959.json''\<rparr> \<noteq> ''.csv'' \<and>
   fst (write_results \<lparr>parent = [''results''], name = ''results_20240131_235959.json''\<rparr>
          [(''1'', ''soup?'', ''Try miso.''), (''2'', ''a, b'', [CHR 0x22, CHR 0x0A, CHR 0x01, CHR 0xC3, CHR 0xA9])]
          Map.empty) = Inr () \<and>
   (\<exists>content.
      snd (write_results \<lparr>parent = [''results''], name = ''results_20240131_235959.json''\<rparr>
             [(''1'', ''soup?'', ''Try miso.''), (''2'', ''a, b'', [CHR 0x22, CHR 0x0A, CHR 0x01, CHR 0xC3, CHR 0xA9])]
             Map.empty)
        \<lparr>parent = [''results''], name = ''results_20240131_235959.json''\<rparr> = Some content \<and>
      read_triples content =
        Some [(''1'', ''soup?'', ''Try miso.''), (''2'', ''a, b'', [CHR 0x22, CHR 0x0A, CHR 0x01, CHR 0xC3, CHR 0xA9])])"
proof -
  have named: "name \<lparr>parent = [''results''], name = ''results_20240131_235959.json''\<rparr> \<noteq> []"
    by simp
  have suffix: "path_suffix \<lparr>parent = [''results''], name = ''results_20240131_235959.json''\<rparr> \<noteq> ''.csv''"
    by (simp add: path_suffix_def rfind_def)
  from json_round_trip [OF named suffix] show ?thesis
    by (intro conjI named suffix) blast+
qed



subsection \<open>The path of a run\<close>

text \<open>
  The path that \<^const>\<open>run_bulk_test\<close> builds has a name and ends in \<^verbatim>\<open>.json\<close>, whatever
  the time stamp: it meets the hypotheses of C7 and C8.
\<close>

lemma rfind_last_dot:
  assumes "CHR ''.'' \<notin> set ext"
  shows "rfind (x @ CHR ''.'' # ext) CHR ''.'' = int (length x)"
proof -
  have "takeWhile (\<lambda>c. c \<noteq> CHR ''.'') (rev ext @ CHR ''.'' # rev x) = rev ext"
  proof (subst takeWhile_append2)
    show "\<And>c. c \<in> set (rev ext) \<Longrightarrow> c \<noteq> CHR ''.''" using assms by auto
    show "rev ext @ takeWhile (\<lambda>c. c \<noteq> CHR ''.'') (CHR ''.'' # rev x) = rev ext" by simp
  qed
  then show ?thesis by (simp add: rfind_def)
qed

lemma path_suffix_ext:
  assumes "name p = x @ CHR ''.'' # ext" and "x \<noteq> []" and "ext \<noteq> []" and "CHR ''.'' \<notin> set ext"
  shows "path_suffix p = CHR ''.'' # ext"
  using assms rfind_last_dot[OF assms(4), of x] by (simp add: path_suffix_def)

lemma results_path_suffix:
  "path_suffix \<lparr>parent = RESULTS_DIR, name = ''results_'' @ timestamp @ ''.json''\<rparr> = ''.json''"
  by (rule path_suffix_ext[where x = "''results_'' @ timestamp" and ext = "''json''", simplified]) simp

lemma results_path:
  "name \<lparr>parent = RESULTS_DIR, name = ''results_'' @ timestamp @ ''.json''\<rparr> \<noteq> [] \<and>
   path_suffix \<lparr>parent = RESULTS_DIR, name = ''results_'' @ timestamp @ ''.json''\<rparr> \<noteq> ''.csv''"
  unfolding results_path_suffix by simp

lemma read_queries_QueryRecords: "list_all QueryRecord (read_queries reader)"
  by (simp add: read_queries_def QueryRecord_def truthy_iff list_all_iff)

end
